theory Spec2Isabelle
  imports Main "HOL-Library.Word" "HOL-Library.AList" "HOL-Library.Char_ord"
    "HOL-Library.List_Lexorder"
begin

section \<open>Block rewards (core/state_processor.go)\<close>

subsection \<open>Data\<close>

type_synonym Address = "160 word"
type_synonym Hash = "256 word"

text \<open>The fields of \<^verbatim>\<open>types.Header\<close> that the state processor reads. The \<^verbatim>\<open>*big.Int\<close>
  fields of a header and the global \<^verbatim>\<open>BlockReward\<close> are only ever read by this file, so
  they are carried by value; \<^verbatim>\<open>BlockReward\<close> is declared outside the file and is a
  parameter of every function that uses it.\<close>

record Header =
  Number :: int
  Coinbase :: Address
  GasLimit :: int

text \<open>Go panics that the functions below can raise.\<close>

datatype panic = IndexOutOfRange | NilDereference

subsection \<open>The \<^verbatim>\<open>big.Int\<close> objects that are written\<close>

text \<open>\<^verbatim>\<open>AccumulateRewards\<close> allocates \<^verbatim>\<open>big.Int\<close> objects, overwrites them in place and
  returns a slice of pointers to them, so the objects live in an explicit store:
  a pointer is an address, \<open>cell\<close> gives the current value behind each address and
  \<open>fresh\<close> is the next unused address.\<close>

type_synonym ptr = nat

record heap =
  cell :: "ptr \<Rightarrow> int"
  fresh :: ptr

text \<open>\<^verbatim>\<open>new(big.Int)\<close>: a new object holding 0.\<close>

definition new_Int :: "heap \<Rightarrow> ptr \<times> heap" where
  "new_Int h = (fresh h, h\<lparr>cell := (cell h)(fresh h := 0), fresh := Suc (fresh h)\<rparr>)"

text \<open>The methods \<^verbatim>\<open>z.Set(x)\<close>, \<^verbatim>\<open>z.Add(x, y)\<close>, \<^verbatim>\<open>z.Sub(x, y)\<close>, \<^verbatim>\<open>z.Mul(x, y)\<close> and
  \<^verbatim>\<open>z.Div(x, y)\<close> overwrite the object behind \<open>z\<close>; the operands are the values read
  when the call is made. \<^verbatim>\<open>Div\<close> of math/big is Euclidean division (the remainder is
  never negative) and panics on a zero divisor; both divisors of this file are the
  non-zero constants \<^verbatim>\<open>big8\<close> and \<^verbatim>\<open>big32\<close>.\<close>

definition euclid_div :: "int \<Rightarrow> int \<Rightarrow> int" where
  "euclid_div x y = (if 0 < y then x div y else - (x div (- y)))"

definition big_Set :: "ptr \<Rightarrow> int \<Rightarrow> heap \<Rightarrow> heap" where
  "big_Set z x h = h\<lparr>cell := (cell h)(z := x)\<rparr>"

definition big_Add :: "ptr \<Rightarrow> int \<Rightarrow> int \<Rightarrow> heap \<Rightarrow> heap" where
  "big_Add z x y h = h\<lparr>cell := (cell h)(z := x + y)\<rparr>"

definition big_Sub :: "ptr \<Rightarrow> int \<Rightarrow> int \<Rightarrow> heap \<Rightarrow> heap" where
  "big_Sub z x y h = h\<lparr>cell := (cell h)(z := x - y)\<rparr>"

definition big_Mul :: "ptr \<Rightarrow> int \<Rightarrow> int \<Rightarrow> heap \<Rightarrow> heap" where
  "big_Mul z x y h = h\<lparr>cell := (cell h)(z := x * y)\<rparr>"

definition big_Div :: "ptr \<Rightarrow> int \<Rightarrow> int \<Rightarrow> heap \<Rightarrow> heap" where
  "big_Div z x y h = h\<lparr>cell := (cell h)(z := euclid_div x y)\<rparr>"

definition big8 :: int where
  "big8 = 8"

definition big32 :: int where
  "big32 = 32"

text \<open>Division truncating toward zero, the rounding the specification names for the uncle
  reward; it is used only to state the values that the specification expects.\<close>

definition spec_trunc_div :: "int \<Rightarrow> int \<Rightarrow> int" where
  "spec_trunc_div x y = sgn x * sgn y * (\<bar>x\<bar> div \<bar>y\<bar>)"

subsection \<open>The world state\<close>

text \<open>Modelled from the spec: \<^verbatim>\<open>state.StateDB\<close> and its methods \<^verbatim>\<open>AddBalance\<close>,
  \<^verbatim>\<open>StartRecord\<close> and \<^verbatim>\<open>GetLogs\<close> are not part of the two source files. The world state maps
  an account address to its balance (an account never touched has balance 0),
  remembers the transaction hash, block hash and index that log recording was last
  started for, and keeps the logs recorded for each transaction hash.\<close>

type_synonym Log = "Address \<times> Hash list \<times> string"

record StateDB =
  balance :: "Address \<Rightarrow> int"
  thash :: Hash
  bhash :: Hash
  txIndex :: nat
  logs :: "Hash \<Rightarrow> Log list"

text \<open>Modelled from the spec: \<^verbatim>\<open>AddBalance\<close> (add-balance by address and amount).\<close>

definition AddBalance :: "StateDB \<Rightarrow> Address \<Rightarrow> int \<Rightarrow> StateDB" where
  "AddBalance statedb addr amount =
     statedb\<lparr>balance := (balance statedb)(addr := balance statedb addr + amount)\<rparr>"

text \<open>Modelled from the spec: \<^verbatim>\<open>StartRecord\<close> (begin per-transaction log recording by
  transaction hash, block hash and index).\<close>

definition StartRecord :: "StateDB \<Rightarrow> Hash \<Rightarrow> Hash \<Rightarrow> nat \<Rightarrow> StateDB" where
  "StartRecord statedb th bh ti = statedb\<lparr>thash := th, bhash := bh, txIndex := ti\<rparr>"

text \<open>Modelled from the spec: \<^verbatim>\<open>GetLogs\<close> (retrieve logs by transaction hash).\<close>

definition GetLogs :: "StateDB \<Rightarrow> Hash \<Rightarrow> Log list" where
  "GetLogs statedb th = logs statedb th"

subsection \<open>\<^verbatim>\<open>AccumulateRewards\<close>\<close>

text \<open>The first four statements of the loop body leave the uncle's reward in \<open>r\<close>.\<close>

definition uncle_reward_in_r :: "int \<Rightarrow> Header \<Rightarrow> ptr \<Rightarrow> Header \<Rightarrow> heap \<Rightarrow> heap" where
  "uncle_reward_in_r BlockReward header r uncle h =
     (let h1 = big_Add r (Number uncle) big8 h;
          h2 = big_Sub r (cell h1 r) (Number header) h1;
          h3 = big_Mul r (cell h2 r) BlockReward h2
      in big_Div r (cell h3 r) big8 h3)"

text \<open>One pass of the loop body: the pointer \<open>r\<close> itself is appended to \<open>rewards\<close>, and
  the very same object is then overwritten with \<^verbatim>\<open>BlockReward / 32\<close> and added to the
  miner's reward.\<close>

definition uncle_pass ::
  "int \<Rightarrow> Header \<Rightarrow> ptr \<Rightarrow> ptr \<Rightarrow> Header \<Rightarrow> ptr list \<times> heap \<Rightarrow> ptr list \<times> heap" where
  "uncle_pass BlockReward header miner_reward r uncle s =
     (let h4 = uncle_reward_in_r BlockReward header r uncle (snd s);
          rewards = fst s @ [r];
          h5 = big_Div r BlockReward big32 h4;
          h6 = big_Add miner_reward (cell h5 miner_reward) (cell h5 r) h5
      in (rewards, h6))"

fun uncles_loop ::
  "int \<Rightarrow> Header \<Rightarrow> ptr \<Rightarrow> ptr \<Rightarrow> Header list \<Rightarrow> ptr list \<times> heap \<Rightarrow> ptr list \<times> heap" where
  "uncles_loop BlockReward header miner_reward r [] s = s"
| "uncles_loop BlockReward header miner_reward r (uncle # uncles) s =
     uncles_loop BlockReward header miner_reward r uncles
       (uncle_pass BlockReward header miner_reward r uncle s)"

text \<open>The function returns the slice of pointers; the store and the world state it was
  handed are returned with it, so that what it did to them can be stated.\<close>

definition AccumulateRewards ::
  "int \<Rightarrow> StateDB \<Rightarrow> Header \<Rightarrow> Header list \<Rightarrow> heap \<Rightarrow> ptr list \<times> heap \<times> StateDB" where
  "AccumulateRewards BlockReward statedb header uncles h =
     (let (miner_reward, h1) = new_Int h;
          h2 = big_Set miner_reward BlockReward h1;
          (r, h3) = new_Int h2;
          (rewards, h4) = uncles_loop BlockReward header miner_reward r uncles ([], h3)
      in (rewards @ [miner_reward], h4, statedb))"

text \<open>The amounts a caller reads through a slice of pointers.\<close>

definition amounts :: "heap \<Rightarrow> ptr list \<Rightarrow> int list" where
  "amounts h rewards = map (cell h) rewards"

subsection \<open>\<^verbatim>\<open>PayRewards\<close>\<close>

text \<open>\<^verbatim>\<open>statedb.AddBalance\<close> is a method of a type that is defined outside the source
  files. \<^verbatim>\<open>PayRewards\<close> takes it as the parameter \<open>add_balance\<close>, so that the calls it
  makes and their order are those of the source, whatever the method does with them;
  \<^verbatim>\<open>Process\<close> passes the \<open>AddBalance\<close> modelled above. Indexing \<^verbatim>\<open>rewards[i]\<close> past the
  end of the slice panics.\<close>

fun PayRewards_loop ::
  "('s \<Rightarrow> Address \<Rightarrow> int \<Rightarrow> 's) \<Rightarrow> heap \<Rightarrow> ptr list \<Rightarrow> Header list \<Rightarrow> nat \<Rightarrow> 's \<Rightarrow>
     panic + (nat \<times> 's)" where
  "PayRewards_loop add_balance h rewards [] i statedb = Inr (i, statedb)"
| "PayRewards_loop add_balance h rewards (uncle # uncles) i statedb =
     (if i < length rewards
      then PayRewards_loop add_balance h rewards uncles (Suc i)
             (add_balance statedb (Coinbase uncle) (cell h (rewards ! i)))
      else Inl IndexOutOfRange)"

definition PayRewards ::
  "('s \<Rightarrow> Address \<Rightarrow> int \<Rightarrow> 's) \<Rightarrow> 's \<Rightarrow> Header \<Rightarrow> Header list \<Rightarrow> ptr list \<Rightarrow> heap \<Rightarrow>
     panic + 's" where
  "PayRewards add_balance statedb header uncles rewards h =
     (case PayRewards_loop add_balance h rewards uncles 0 statedb of
        Inl p \<Rightarrow> Inl p
      | Inr (i, statedb') \<Rightarrow>
          if i < length rewards
          then Inr (add_balance statedb' (Coinbase header) (cell h (rewards ! i)))
          else Inl IndexOutOfRange)"

text \<open>Calling the method on a list of (beneficiary, amount) pairs, one after the other
  from left to right.\<close>

definition credit_all ::
  "('s \<Rightarrow> Address \<Rightarrow> int \<Rightarrow> 's) \<Rightarrow> 's \<Rightarrow> (Address \<times> int) list \<Rightarrow> 's" where
  "credit_all add_balance statedb pays =
     foldl (\<lambda>s p. add_balance s (fst p) (snd p)) statedb pays"

text \<open>A method that does nothing but record its calls, in the order in which they are
  made.\<close>

definition record_call ::
  "(Address \<times> int) list \<Rightarrow> Address \<Rightarrow> int \<Rightarrow> (Address \<times> int) list" where
  "record_call calls addr amount = calls @ [(addr, amount)]"

text \<open>The total that a list of payments gives to one address.\<close>

definition paid_to :: "Address \<Rightarrow> (Address \<times> int) list \<Rightarrow> int" where
  "paid_to a pays = sum_list (map snd (filter (\<lambda>p. fst p = a) pays))"

text \<open>Concrete inputs for the examples: a world state in which no account holds
  anything, and a store of \<^verbatim>\<open>big.Int\<close> objects in which nothing is allocated.\<close>

definition no_accounts :: StateDB where
  "no_accounts = \<lparr>balance = (\<lambda>a. 0), thash = 0, bhash = 0, txIndex = 0, logs = (\<lambda>t. [])\<rparr>"

definition empty_heap :: heap where
  "empty_heap = \<lparr>cell = (\<lambda>p. 0), fresh = 0\<rparr>"

section \<open>Block processing (core/state_processor.go)\<close>

subsection \<open>Data\<close>

text \<open>The error values of the specification, and the not-found error of the store.\<close>

datatype error =
    OutOfGas
  | ExecutionFailure
  | CorruptChain nat
  | StorageIO string
  | NotFound

record Transaction =
  tx_Hash :: Hash
  tx_From :: Address
  tx_Nonce :: "64 word"

record Receipt =
  PostState :: Hash
  CumulativeGasUsed :: int
  TxHash :: Hash
  GasUsed :: int
  ContractAddress :: Address
  Logs :: "Log list"
  Bloom :: "2048 word"

text \<open>A block: its header, transactions and uncles, the total difficulty that the old
  storage format kept inside the block, and the block's hash.\<close>

record Block =
  blk_Header :: Header
  blk_Transactions :: "Transaction list"
  blk_Uncles :: "Header list"
  blk_DeprecatedTd :: int
  blk_Hash :: Hash

text \<open>The functions that \<^verbatim>\<open>Process\<close> and \<^verbatim>\<open>ApplyTransaction\<close> call and that are defined in
  other files are parameters. \<^verbatim>\<open>ApplyMessage\<close> is the transaction executor: it is given
  the world state, the header, the transaction and the gas pool, changes the state and
  the pool in place, and returns the gas used or an error. \<^verbatim>\<open>IntermediateRoot\<close> returns
  the state root and may change the state.\<close>

record externals =
  ApplyMessage ::
    "StateDB \<Rightarrow> Header \<Rightarrow> Transaction \<Rightarrow> int \<Rightarrow> (error + int) \<times> StateDB \<times> int"
  IntermediateRoot :: "StateDB \<Rightarrow> Hash \<times> StateDB"
  MessageCreatesContract :: "Transaction \<Rightarrow> bool"
  CreateAddress :: "Address \<Rightarrow> 64 word \<Rightarrow> Address"
  CreateBloom :: "Receipt list \<Rightarrow> 2048 word"

subsection \<open>\<^verbatim>\<open>ApplyTransaction\<close>\<close>

text \<open>The objects that the call changes in place (the gas pool, the world state and the
  running total \<^verbatim>\<open>usedGas\<close>) are returned next to the result. \<^verbatim>\<open>NewReceipt\<close> and
  \<^verbatim>\<open>receipt.GasUsed\<close> hold copies of the numbers they are given.\<close>

definition ApplyTransaction ::
  "externals \<Rightarrow> int \<Rightarrow> StateDB \<Rightarrow> Header \<Rightarrow> Transaction \<Rightarrow> int \<Rightarrow>
     (error + Receipt \<times> Log list \<times> int) \<times> int \<times> StateDB \<times> int" where
  "ApplyTransaction ext gp statedb hdr tx usedGas =
     (case ApplyMessage ext statedb hdr tx gp of
        (Inl err, statedb1, gp1) \<Rightarrow> (Inl err, gp1, statedb1, usedGas)
      | (Inr gas, statedb1, gp1) \<Rightarrow>
          (let usedGas1 = usedGas + gas;
               (root, statedb2) = IntermediateRoot ext statedb1;
               lgs = GetLogs statedb2 (tx_Hash tx);
               receipt = \<lparr>PostState = root, CumulativeGasUsed = usedGas1,
                          TxHash = tx_Hash tx, GasUsed = gas,
                          ContractAddress =
                            (if MessageCreatesContract ext tx
                             then CreateAddress ext (tx_From tx) (tx_Nonce tx) else 0),
                          Logs = lgs, Bloom = 0\<rparr>
           in (Inr (receipt\<lparr>Bloom := CreateBloom ext [receipt]\<rparr>, lgs, gas),
               gp1, statedb2, usedGas1)))"

subsection \<open>\<^verbatim>\<open>Process\<close>\<close>

text \<open>The variables of \<^verbatim>\<open>Process\<close> that the loop over the transactions changes.\<close>

record process_vars =
  v_statedb :: StateDB
  v_gp :: int
  v_totalUsedGas :: int
  v_receipts :: "Receipt list"
  v_allLogs :: "Log list"

text \<open>The loop over \<^verbatim>\<open>block.Transactions()\<close>, from index \<open>i\<close> on; \<open>Inl\<close> is the early return
  with the error, together with the variables as the failing call left them.\<close>

fun process_loop ::
  "externals \<Rightarrow> Header \<Rightarrow> Hash \<Rightarrow> Transaction list \<Rightarrow> nat \<Rightarrow> process_vars \<Rightarrow>
     error \<times> process_vars + process_vars" where
  "process_loop ext hdr bh [] i vars = Inr vars"
| "process_loop ext hdr bh (tx # txs) i vars =
     (case ApplyTransaction ext (v_gp vars)
             (StartRecord (v_statedb vars) (tx_Hash tx) bh i) hdr tx (v_totalUsedGas vars) of
        (Inl err, gp1, statedb1, used1) \<Rightarrow>
          Inl (err, vars\<lparr>v_statedb := statedb1, v_gp := gp1, v_totalUsedGas := used1\<rparr>)
      | (Inr (receipt, lgs, gas), gp1, statedb1, used1) \<Rightarrow>
          process_loop ext hdr bh txs (Suc i)
            \<lparr>v_statedb = statedb1, v_gp = gp1, v_totalUsedGas = used1,
             v_receipts = v_receipts vars @ [receipt],
             v_allLogs = v_allLogs vars @ lgs\<rparr>)"

text \<open>What a call of \<^verbatim>\<open>Process\<close> leaves: the four values it returns (a nil slice is the
  empty list, a nil error is \<open>None\<close>) and the world state after the call.\<close>

record outcome =
  out_receipts :: "Receipt list"
  out_logs :: "Log list"
  out_gas :: int
  out_err :: "error option"
  out_statedb :: StateDB

text \<open>\<^verbatim>\<open>new(GasPool).AddGas(block.GasLimit())\<close> is a pool holding the block's gas limit.\<close>

definition initial_vars :: "Block \<Rightarrow> StateDB \<Rightarrow> process_vars" where
  "initial_vars block statedb =
     \<lparr>v_statedb = statedb, v_gp = GasLimit (blk_Header block), v_totalUsedGas = 0,
      v_receipts = [], v_allLogs = []\<rparr>"

definition Process ::
  "externals \<Rightarrow> int \<Rightarrow> Block \<Rightarrow> StateDB \<Rightarrow> heap \<Rightarrow> panic + outcome" where
  "Process ext BlockReward block statedb h =
     (case process_loop ext (blk_Header block) (blk_Hash block) (blk_Transactions block) 0
             (initial_vars block statedb) of
        Inl (err, vars) \<Rightarrow>
          Inr \<lparr>out_receipts = [], out_logs = [], out_gas = v_totalUsedGas vars,
               out_err = Some err, out_statedb = v_statedb vars\<rparr>
      | Inr vars \<Rightarrow>
          (case AccumulateRewards BlockReward (v_statedb vars) (blk_Header block) (blk_Uncles block) h of
             (rewards, h1, statedb1) \<Rightarrow>
               (case PayRewards AddBalance statedb1 (blk_Header block) (blk_Uncles block) rewards
                       h1 of
                  Inl p \<Rightarrow> Inl p
                | Inr statedb2 \<Rightarrow>
                    Inr \<lparr>out_receipts = v_receipts vars, out_logs = v_allLogs vars,
                         out_gas = v_totalUsedGas vars, out_err = None,
                         out_statedb = statedb2\<rparr>)))"


text \<open>An executor for the examples: every message costs 21000 gas, fails with
  \<open>OutOfGas\<close> when the pool holds less, and otherwise pays 1 to the sender.\<close>

definition example_externals :: externals where
  "example_externals =
     \<lparr>ApplyMessage = (\<lambda>statedb hdr tx gp.
         if gp < 21000 then (Inl OutOfGas, statedb, gp)
         else (Inr 21000, AddBalance statedb (tx_From tx) 1, gp - 21000)),
      IntermediateRoot = (\<lambda>statedb. (0, statedb)),
      MessageCreatesContract = (\<lambda>tx. False),
      CreateAddress = (\<lambda>a n. a),
      CreateBloom = (\<lambda>rs. 0)\<rparr>"

text \<open>A block for the examples, at height 10 with one uncle of height 9 and three
  transactions; its gas limit is left open.\<close>

definition example_block :: "int \<Rightarrow> Block" where
  "example_block limit =
     \<lparr>blk_Header = \<lparr>Number = 10, Coinbase = 1, GasLimit = limit\<rparr>,
      blk_Transactions =
        [\<lparr>tx_Hash = 11, tx_From = 3, tx_Nonce = 0\<rparr>,
         \<lparr>tx_Hash = 12, tx_From = 4, tx_Nonce = 0\<rparr>,
         \<lparr>tx_Hash = 13, tx_From = 3, tx_Nonce = 1\<rparr>],
      blk_Uncles = [\<lparr>Number = 9, Coinbase = 2, GasLimit = limit\<rparr>],
      blk_DeprecatedTd = 0,
      blk_Hash = 77\<rparr>"

section \<open>Upgrades of the chain database\<close>

subsection \<open>The key-value store\<close>

text \<open>Byte strings are lists of 8-bit characters.\<close>

type_synonym bytes = string

text \<open>\<^verbatim>\<open>bytes.HasPrefix\<close>, \<^verbatim>\<open>bytes.HasSuffix\<close> and \<^verbatim>\<open>bytes.TrimPrefix\<close> of the Go library.\<close>

definition HasPrefix :: "bytes \<Rightarrow> bytes \<Rightarrow> bool" where
  "HasPrefix s p \<longleftrightarrow> length p \<le> length s \<and> take (length p) s = p"

definition HasSuffix :: "bytes \<Rightarrow> bytes \<Rightarrow> bool" where
  "HasSuffix s p \<longleftrightarrow> length p \<le> length s \<and> drop (length s - length p) s = p"

definition TrimPrefix :: "bytes \<Rightarrow> bytes \<Rightarrow> bytes" where
  "TrimPrefix s p = (if HasPrefix s p then drop (length p) s else s)"

text \<open>Modelled from the spec: the interface \<^verbatim>\<open>eddb.Database\<close> and its implementations are
  not part of the source files (byte-oriented get, put and delete by key, and
  iteration over the keys). A database is the dynamic type behind the interface (the
  migrator asks whether it is an \<^verbatim>\<open>*eddb.LDBDatabase\<close>), its records as an association
  list, and the keys on which a read, a write or a delete fails with an I/O error.
  A failing operation leaves the records as they are; reading a key that has no
  record returns the not-found error.\<close>

datatype db_impl = LDBDatabase | MemDatabase

record Database =
  impl :: db_impl
  entries :: "(bytes \<times> bytes) list"
  get_fails :: "bytes \<Rightarrow> bool"
  put_fails :: "bytes \<Rightarrow> bool"
  delete_fails :: "bytes \<Rightarrow> bool"

definition lookup :: "Database \<Rightarrow> bytes \<Rightarrow> bytes option" where
  "lookup db key = map_of (entries db) key"

definition db_Get :: "Database \<Rightarrow> bytes \<Rightarrow> error + bytes" where
  "db_Get db key =
     (if get_fails db key then Inl (StorageIO key)
      else case lookup db key of None \<Rightarrow> Inl NotFound | Some v \<Rightarrow> Inr v)"

definition db_Put :: "Database \<Rightarrow> bytes \<Rightarrow> bytes \<Rightarrow> error option \<times> Database" where
  "db_Put db key v =
     (if put_fails db key then (Some (StorageIO key), db)
      else (None, db\<lparr>entries := AList.update key v (entries db)\<rparr>))"

definition db_Delete :: "Database \<Rightarrow> bytes \<Rightarrow> error option \<times> Database" where
  "db_Delete db key =
     (if delete_fails db key then (Some (StorageIO key), db)
      else (None, db\<lparr>entries := AList.delete key (entries db)\<rparr>))"

text \<open>The keys that \<^verbatim>\<open>db.NewIterator()\<close> yields: the keys of the store at the moment the
  iterator is created, once each, in byte order.\<close>

definition iterator_keys :: "Database \<Rightarrow> bytes list" where
  "iterator_keys db = sort (remdups (map fst (entries db)))"

text \<open>Two stores are of the same kind when they have the same dynamic type and fail on
  the same keys; the operations change only the records.\<close>

definition same_kind :: "Database \<Rightarrow> Database \<Rightarrow> bool" where
  "same_kind db db' \<longleftrightarrow>
     impl db' = impl db \<and> get_fails db' = get_fails db \<and> put_fails db' = put_fails db \<and>
     delete_fails db' = delete_fails db"

subsection \<open>The functions of other packages\<close>

text \<open>The conversions between byte strings and hashes, the decoding of an old combined
  block record, the keys and encodings of the three records that replace it, the keys
  of the canonical hashes and of the bloom bins, the content of a bloom bin, the
  reading of a block and of its receipts, and the decoding and encoding of the
  version marker are defined outside the source files and are parameters.\<close>

record chain_fns =
  BytesToHash :: "bytes \<Rightarrow> Hash"
  HashBytes :: "Hash \<Rightarrow> bytes"
  DecodeBlock :: "bytes \<Rightarrow> Block option"
  tdKey :: "Hash \<Rightarrow> bytes"
  bodyKey :: "Hash \<Rightarrow> bytes"
  headerKey :: "Header \<Rightarrow> bytes"
  EncodeTd :: "int \<Rightarrow> bytes"
  EncodeBody :: "Transaction list \<times> Header list \<Rightarrow> bytes"
  EncodeHeader :: "Header \<Rightarrow> bytes"
  canonKey :: "64 word \<Rightarrow> bytes"
  mipmapKey :: "64 word \<Rightarrow> bytes"
  BloomBin :: "Database \<Rightarrow> 64 word \<Rightarrow> Receipt list \<Rightarrow> bytes"
  GetBlock :: "Database \<Rightarrow> Hash \<Rightarrow> Block option"
  GetBlockReceipts :: "Database \<Rightarrow> Hash \<Rightarrow> Receipt list"
  DecodeVersion :: "bytes \<Rightarrow> nat option"
  EncodeVersion :: "nat \<Rightarrow> bytes"

definition blockPrefix :: bytes where
  "blockPrefix = ''block-hash-''"

text \<open>Modelled from the spec: \<^verbatim>\<open>core.GetBlockByHashOld\<close> is not part of the source files. It
  reads the combined record of the old format, keyed by \<^verbatim>\<open>block-hash-\<close> followed by the
  hash, and returns nil when there is none or when it does not decode.\<close>

definition GetBlockByHashOld :: "chain_fns \<Rightarrow> Database \<Rightarrow> Hash \<Rightarrow> Block option" where
  "GetBlockByHashOld cf db hash =
     (case db_Get db (blockPrefix @ HashBytes cf hash) of
        Inl err \<Rightarrow> None
      | Inr data \<Rightarrow> if data = [] then None else DecodeBlock cf data)"

text \<open>Modelled from the spec: \<^verbatim>\<open>core.WriteTd\<close>, \<^verbatim>\<open>core.WriteBody\<close> and \<^verbatim>\<open>core.WriteHeader\<close> are
  not part of the source files. Each writes one of the three separate records
  (total difficulty, body, header) and returns the store's error when the write
  fails.\<close>

definition WriteTd :: "chain_fns \<Rightarrow> Database \<Rightarrow> Hash \<Rightarrow> int \<Rightarrow> error option \<times> Database" where
  "WriteTd cf db hash td = db_Put db (tdKey cf hash) (EncodeTd cf td)"

definition WriteBody ::
  "chain_fns \<Rightarrow> Database \<Rightarrow> Hash \<Rightarrow> Transaction list \<times> Header list \<Rightarrow>
     error option \<times> Database" where
  "WriteBody cf db hash body = db_Put db (bodyKey cf hash) (EncodeBody cf body)"

definition WriteHeader :: "chain_fns \<Rightarrow> Database \<Rightarrow> Header \<Rightarrow> error option \<times> Database" where
  "WriteHeader cf db hdr = db_Put db (headerKey cf hdr) (EncodeHeader cf hdr)"

subsection \<open>\<^verbatim>\<open>upgradeChainDatabase\<close>\<close>

text \<open>The three writes that split a block, in the order of the source; the first error
  is returned. The source has this sequence twice, in the loop and for the head.\<close>

definition split_block :: "chain_fns \<Rightarrow> Database \<Rightarrow> Block \<Rightarrow> error option \<times> Database" where
  "split_block cf db block =
     (case WriteTd cf db (blk_Hash block) (blk_DeprecatedTd block) of
        (Some err, db1) \<Rightarrow> (Some err, db1)
      | (None, db1) \<Rightarrow>
          (case WriteBody cf db1 (blk_Hash block)
                  (blk_Transactions block, blk_Uncles block) of
             (Some err, db2) \<Rightarrow> (Some err, db2)
           | (None, db2) \<Rightarrow> WriteHeader cf db2 (blk_Header block)))"

text \<open>The loop over the iterator's keys. The block is read from the store as it is at
  that moment; a key whose record is missing or does not decode gives a nil block, and
  \<^verbatim>\<open>block.Hash()\<close> on it panics.\<close>

fun upgrade_loop ::
  "chain_fns \<Rightarrow> Hash \<Rightarrow> bytes list \<Rightarrow> Database \<Rightarrow> panic + error option \<times> Database" where
  "upgrade_loop cf head [] db = Inr (None, db)"
| "upgrade_loop cf head (key # keys) db =
     (if \<not> HasPrefix key blockPrefix then upgrade_loop cf head keys db
      else if HasSuffix key (HashBytes cf head) then upgrade_loop cf head keys db
      else (case GetBlockByHashOld cf db (BytesToHash cf (TrimPrefix key blockPrefix)) of
              None \<Rightarrow> Inl NilDereference
            | Some block \<Rightarrow>
                (case split_block cf db block of
                   (Some err, db1) \<Rightarrow> Inr (Some err, db1)
                 | (None, db1) \<Rightarrow>
                     (case db_Delete db1 key of
                        (Some err, db2) \<Rightarrow> Inr (Some err, db2)
                      | (None, db2) \<Rightarrow> upgrade_loop cf head keys db2))))"

text \<open>The function returns the error (\<open>None\<close> is nil) and leaves the store; a panic is
  \<open>Inl\<close>.\<close>

definition upgradeChainDatabase ::
  "chain_fns \<Rightarrow> Database \<Rightarrow> panic + error option \<times> Database" where
  "upgradeChainDatabase cf db =
     (case db_Get db ''LastBlock'' of
        Inl err \<Rightarrow> Inr (None, db)
      | Inr data \<Rightarrow>
          (let head = BytesToHash cf data in
           case GetBlockByHashOld cf db head of
             None \<Rightarrow> Inr (None, db)
           | Some block \<Rightarrow>
               (case impl db of
                  MemDatabase \<Rightarrow> Inr (None, db)
                | LDBDatabase \<Rightarrow>
                    (case upgrade_loop cf head (iterator_keys db) db of
                       Inl p \<Rightarrow> Inl p
                     | Inr (Some err, db1) \<Rightarrow> Inr (Some err, db1)
                     | Inr (None, db1) \<Rightarrow>
                         (case GetBlockByHashOld cf db1 head of
                            None \<Rightarrow> Inl NilDereference
                          | Some current \<Rightarrow> Inr (split_block cf db1 current))))))"

text \<open>The keys of a list that the loop does not skip.\<close>

definition loop_keys :: "chain_fns \<Rightarrow> Hash \<Rightarrow> bytes list \<Rightarrow> bytes list" where
  "loop_keys cf head keys =
     filter (\<lambda>key. HasPrefix key blockPrefix \<and> \<not> HasSuffix key (HashBytes cf head)) keys"

text \<open>The keys of the store that the loop does not skip, the block that the loop reads
  for a key, and the keys of the three records of a block.\<close>

definition legacy_keys :: "chain_fns \<Rightarrow> Hash \<Rightarrow> Database \<Rightarrow> bytes list" where
  "legacy_keys cf head db =
     filter (\<lambda>key. HasPrefix key blockPrefix \<and> \<not> HasSuffix key (HashBytes cf head))
       (iterator_keys db)"

definition record_of :: "chain_fns \<Rightarrow> Database \<Rightarrow> bytes \<Rightarrow> Block option" where
  "record_of cf db key =
     GetBlockByHashOld cf db (BytesToHash cf (TrimPrefix key blockPrefix))"

definition new_keys :: "chain_fns \<Rightarrow> Block \<Rightarrow> bytes list" where
  "new_keys cf block =
     [tdKey cf (blk_Hash block), bodyKey cf (blk_Hash block), headerKey cf (blk_Header block)]"

text \<open>A block is stored in the new format when its three records are there.\<close>

definition has_split :: "chain_fns \<Rightarrow> Database \<Rightarrow> Block \<Rightarrow> bool" where
  "has_split cf db block \<longleftrightarrow>
     lookup db (tdKey cf (blk_Hash block)) = Some (EncodeTd cf (blk_DeprecatedTd block)) \<and>
     lookup db (bodyKey cf (blk_Hash block)) =
       Some (EncodeBody cf (blk_Transactions block, blk_Uncles block)) \<and>
     lookup db (headerKey cf (blk_Header block)) = Some (EncodeHeader cf (blk_Header block))"

text \<open>The blocks that a migration with head \<open>head\<close> has to split: those of the keys the
  loop does not skip, and the head's.\<close>

definition blocks_to_split :: "chain_fns \<Rightarrow> Hash \<Rightarrow> Database \<Rightarrow> Block list" where
  "blocks_to_split cf head db =
     List.map_filter (record_of cf db) (legacy_keys cf head db) @
     (case GetBlockByHashOld cf db head of None \<Rightarrow> [] | Some current \<Rightarrow> [current])"

text \<open>A store in the old format is well formed when every key the loop does not skip is
  the key under which \<^verbatim>\<open>GetBlockByHashOld\<close> looks its block up and has a record that
  decodes, and when the keys of the new records of all blocks to split are pairwise
  different, do not begin with \<^verbatim>\<open>block-hash-\<close> and are not \<^verbatim>\<open>LastBlock\<close>.\<close>

definition well_formed :: "chain_fns \<Rightarrow> Hash \<Rightarrow> Database \<Rightarrow> bool" where
  "well_formed cf head db \<longleftrightarrow>
     list_all (\<lambda>key. blockPrefix @ HashBytes cf (BytesToHash cf (TrimPrefix key blockPrefix)) = key
                  \<and> record_of cf db key \<noteq> None) (legacy_keys cf head db) \<and>
     distinct (concat (map (new_keys cf) (blocks_to_split cf head db))) \<and>
     list_all (\<lambda>key. \<not> HasPrefix key blockPrefix \<and> key \<noteq> ''LastBlock'')
       (concat (map (new_keys cf) (blocks_to_split cf head db)))"

text \<open>The keys that a complete migration writes; the keys it deletes are those the loop
  does not skip.\<close>

definition needed_puts :: "chain_fns \<Rightarrow> Hash \<Rightarrow> Database \<Rightarrow> bytes list" where
  "needed_puts cf head db = concat (map (new_keys cf) (blocks_to_split cf head db))"

text \<open>A store is well formed when it has no readable head pointer, or is well formed
  for the head that the pointer names.\<close>

definition well_formed_store :: "chain_fns \<Rightarrow> Database \<Rightarrow> bool" where
  "well_formed_store cf db \<longleftrightarrow>
     (case db_Get db ''LastBlock'' of
        Inl err \<Rightarrow> True
      | Inr data \<Rightarrow> well_formed cf (BytesToHash cf data) db)"

subsection \<open>\<^verbatim>\<open>addMipmapBloomBins\<close>\<close>

definition mipmapVersion :: nat where
  "mipmapVersion = 2"

definition versionKey :: bytes where
  "versionKey = ''setting-mipmap-version''"

text \<open>Modelled from the spec: \<^verbatim>\<open>core.GetHeadBlockHash\<close>, \<^verbatim>\<open>core.GetCanonicalHash\<close> and
  \<^verbatim>\<open>core.WriteMipmapBloom\<close> are not part of the source files. The head pointer is the
  record \<^verbatim>\<open>LastBlock\<close>; the canonical hash of a number is looked up by number and is
  the zero hash when it is absent; a bloom bin is written under a key given by the
  block number, and the write returns the store's error.\<close>

definition GetHeadBlockHash :: "chain_fns \<Rightarrow> Database \<Rightarrow> Hash" where
  "GetHeadBlockHash cf db =
     (case db_Get db ''LastBlock'' of
        Inl err \<Rightarrow> 0
      | Inr data \<Rightarrow> if data = [] then 0 else BytesToHash cf data)"

definition GetCanonicalHash :: "chain_fns \<Rightarrow> Database \<Rightarrow> 64 word \<Rightarrow> Hash" where
  "GetCanonicalHash cf db number =
     (case db_Get db (canonKey cf number) of
        Inl err \<Rightarrow> 0
      | Inr data \<Rightarrow> if data = [] then 0 else BytesToHash cf data)"

definition WriteMipmapBloom ::
  "chain_fns \<Rightarrow> Database \<Rightarrow> 64 word \<Rightarrow> Receipt list \<Rightarrow> error option \<times> Database" where
  "WriteMipmapBloom cf db number receipts =
     db_Put db (mipmapKey cf number) (BloomBin cf db number receipts)"

text \<open>Modelled from the spec: \<^verbatim>\<open>Block.NumberU64\<close> is not part of the source files. It is
  the number of the block's header as an unsigned 64-bit integer: \<^verbatim>\<open>Uint64\<close> of math/big
  takes the low 64 bits of the absolute value of the number.\<close>

definition NumberU64 :: "Block \<Rightarrow> 64 word" where
  "NumberU64 block = word_of_int \<bar>Number (blk_Header block)\<bar>"

text \<open>The test at the head of the function: a marker is read (the error of the read is
  dropped), and the function returns at once when it decodes to the current
  version.\<close>

definition version_current :: "chain_fns \<Rightarrow> Database \<Rightarrow> bool" where
  "version_current cf db \<longleftrightarrow>
     (case db_Get db versionKey of
        Inl err \<Rightarrow> False
      | Inr data \<Rightarrow> data \<noteq> [] \<and> DecodeVersion cf data = Some mipmapVersion)"

text \<open>The loop \<^verbatim>\<open>for i := uint64(0); i <= latestBlock.NumberU64(); i++\<close>, from \<open>i\<close> on. The
  counter is a 64-bit word, so the loop need not end when the head's number is the
  largest word: not returning is \<open>None\<close>. The value that \<^verbatim>\<open>WriteMipmapBloom\<close> returns is
  dropped by the source.\<close>

partial_function (option) bloom_loop ::
  "chain_fns \<Rightarrow> 64 word \<Rightarrow> 64 word \<Rightarrow> Database \<Rightarrow> (error option \<times> Database) option" where
  "bloom_loop cf n i db =
     (if i \<le> n
      then (if GetCanonicalHash cf db i = 0 then Some (Some (CorruptChain (unat i)), db)
            else bloom_loop cf n (i + 1)
                   (snd (WriteMipmapBloom cf db i
                           (GetBlockReceipts cf db (GetCanonicalHash cf db i)))))
      else Some (None, db))"

text \<open>The deferred function: when the error to be returned is nil, the version marker is
  written, and the error of that write is returned.\<close>

definition write_version :: "chain_fns \<Rightarrow> error option \<times> Database \<Rightarrow> error option \<times> Database" where
  "write_version cf r =
     (case fst r of
        Some err \<Rightarrow> r
      | None \<Rightarrow> db_Put (snd r) versionKey (EncodeVersion cf mipmapVersion))"

definition addMipmapBloomBins :: "chain_fns \<Rightarrow> Database \<Rightarrow> (error option \<times> Database) option" where
  "addMipmapBloomBins cf db =
     (if version_current cf db then Some (None, db)
      else case GetBlock cf db (GetHeadBlockHash cf db) of
             None \<Rightarrow> Some (write_version cf (None, db))
           | Some latestBlock \<Rightarrow>
               map_option (write_version cf) (bloom_loop cf (NumberU64 latestBlock) 0 db))"

text \<open>The keys of the bloom bins are kept apart from the keys of the canonical hashes
  and from the key of the version marker.\<close>

definition bloom_keys_apart :: "chain_fns \<Rightarrow> bool" where
  "bloom_keys_apart cf \<longleftrightarrow>
     (\<forall>i j. mipmapKey cf i \<noteq> canonKey cf j) \<and> (\<forall>i. mipmapKey cf i \<noteq> versionKey)"

subsection \<open>A store for the examples\<close>

text \<open>Three blocks with the hashes 1, 2 and 3, stored in the old format under
  \<^verbatim>\<open>block-hash-h1\<close>, \<^verbatim>\<open>block-hash-h2\<close> and \<^verbatim>\<open>block-hash-h3\<close>; the head pointer names the
  third. The functions of the other packages are fixed in the simplest way that keeps
  the keys of the new records apart.\<close>

definition old_block :: "Hash \<Rightarrow> int \<Rightarrow> Block" where
  "old_block h n =
     \<lparr>blk_Header = \<lparr>Number = n, Coinbase = 0, GasLimit = 0\<rparr>, blk_Transactions = [],
      blk_Uncles = [], blk_DeprecatedTd = n, blk_Hash = h\<rparr>"

definition example_fns :: chain_fns where
  "example_fns =
     \<lparr>BytesToHash = (\<lambda>b. if b = ''h1'' then 1 else if b = ''h2'' then 2
                          else if b = ''h3'' then 3 else 0),
      HashBytes = (\<lambda>h. if h = 1 then ''h1'' else if h = 2 then ''h2''
                        else if h = 3 then ''h3'' else ''h0''),
      DecodeBlock = (\<lambda>b. if b = ''B1'' then Some (old_block 1 1)
                          else if b = ''B2'' then Some (old_block 2 2)
                          else if b = ''B3'' then Some (old_block 3 3) else None),
      tdKey = (\<lambda>h. if h = 1 then ''block-h1-td'' else if h = 2 then ''block-h2-td''
                    else ''block-h3-td''),
      bodyKey = (\<lambda>h. if h = 1 then ''block-h1-body'' else if h = 2 then ''block-h2-body''
                      else ''block-h3-body''),
      headerKey = (\<lambda>hdr. if Number hdr = 1 then ''block-h1-header''
                          else if Number hdr = 2 then ''block-h2-header''
                          else ''block-h3-header''),
      EncodeTd = (\<lambda>td. replicate (nat td) CHR ''t''),
      EncodeBody = (\<lambda>body. ''body''),
      EncodeHeader = (\<lambda>hdr. replicate (nat (Number hdr)) CHR ''n''),
      canonKey = (\<lambda>i. if i = 0 then ''block-num-0'' else if i = 1 then ''block-num-1''
                       else if i = 2 then ''block-num-2'' else ''block-num-x''),
      mipmapKey = (\<lambda>i. if i = 0 then ''mipmap-log-bloom-0''
                        else if i = 1 then ''mipmap-log-bloom-1''
                        else if i = 2 then ''mipmap-log-bloom-2'' else ''mipmap-log-bloom-x''),
      BloomBin = (\<lambda>db i receipts. ''bloom''),
      GetBlock = (\<lambda>db h. if h = 3 then Some (old_block 3 2) else None),
      GetBlockReceipts = (\<lambda>db h. []),
      DecodeVersion = (\<lambda>b. if b = ''v2'' then Some 2 else if b = ''v1'' then Some 1 else None),
      EncodeVersion = (\<lambda>n. if n = 2 then ''v2'' else ''v1'')\<rparr>"

definition old_store :: "db_impl \<Rightarrow> (bytes \<Rightarrow> bool) \<Rightarrow> Database" where
  "old_store kind failing_reads =
     \<lparr>impl = kind,
      entries = [(''block-hash-h2'', ''B2''), (''LastBlock'', ''h3''),
                 (''block-hash-h3'', ''B3''), (''block-hash-h1'', ''B1'')],
      get_fails = failing_reads, put_fails = (\<lambda>key. False), delete_fails = (\<lambda>key. False)\<rparr>"

text \<open>Sets of keys on which an operation fails: none, and single keys.\<close>

definition never :: "bytes \<Rightarrow> bool" where
  "never key = False"

definition only_LastBlock :: "bytes \<Rightarrow> bool" where
  "only_LastBlock key \<longleftrightarrow> key = ''LastBlock''"

text \<open>A store in the new format for the examples: the head pointer names block 3, whose
  number is 2, and the canonical hashes of the numbers 0 and 1 are present; further
  records are added in front.\<close>

definition new_store :: "(bytes \<times> bytes) list \<Rightarrow> Database" where
  "new_store extra =
     \<lparr>impl = LDBDatabase,
      entries = extra @ [(''LastBlock'', ''h3''), (''block-num-0'', ''h1''),
                         (''block-num-1'', ''h2'')],
      get_fails = never, put_fails = never, delete_fails = never\<rparr>"

definition only_versionKey :: "bytes \<Rightarrow> bool" where
  "only_versionKey key \<longleftrightarrow> key = versionKey"

definition only_h2_td :: "bytes \<Rightarrow> bool" where
  "only_h2_td key \<longleftrightarrow> key = ''block-h2-td''"

subsection \<open>Summaries used in the proofs\<close>

text \<open>What the loop does on the keys \<open>ks\<close>, started in the store \<open>db\<close>: the kind of the
  store is kept, only the keys the loop does not skip and the keys of the new records
  of their blocks change, the loop succeeds exactly when none of its writes and deletes
  fails, an error is the I/O error of one of them, and after a successful loop every
  key it did not skip has lost its record and has its block split.\<close>

definition loop_summary ::
  "chain_fns \<Rightarrow> Hash \<Rightarrow> bytes list \<Rightarrow> Database \<Rightarrow> error option \<Rightarrow> Database \<Rightarrow> bool" where
  "loop_summary cf head ks db err db' \<longleftrightarrow>
     same_kind db db' \<and>
     (\<forall>k. k \<notin> set (loop_keys cf head ks) \<and>
          k \<notin> set (concat (map (new_keys cf)
                  (List.map_filter (record_of cf db) (loop_keys cf head ks)))) \<longrightarrow>
          lookup db' k = lookup db k) \<and>
     (err = None \<longleftrightarrow>
        (\<forall>k \<in> set (concat (map (new_keys cf)
                  (List.map_filter (record_of cf db) (loop_keys cf head ks)))).
            \<not> put_fails db k) \<and>
        (\<forall>k \<in> set (loop_keys cf head ks). \<not> delete_fails db k)) \<and>
     (\<forall>e. err = Some e \<longrightarrow>
        (\<exists>k. e = StorageIO k \<and>
           (k \<in> set (concat (map (new_keys cf)
                  (List.map_filter (record_of cf db) (loop_keys cf head ks)))) \<and>
            put_fails db k \<or>
            k \<in> set (loop_keys cf head ks) \<and> delete_fails db k))) \<and>
     (err = None \<longrightarrow>
        (\<forall>k \<in> set (loop_keys cf head ks).
           lookup db' k = None \<and> (\<exists>b. record_of cf db k = Some b \<and> has_split cf db' b)))"

text \<open>What a migration does, in the old-format branch.\<close>

definition upgrade_summary ::
  "chain_fns \<Rightarrow> Hash \<Rightarrow> Block \<Rightarrow> Database \<Rightarrow> error option \<Rightarrow> Database \<Rightarrow> bool" where
  "upgrade_summary cf head current db err db' \<longleftrightarrow>
     same_kind db db' \<and>
     (\<forall>k. k \<notin> set (legacy_keys cf head db) \<and> k \<notin> set (needed_puts cf head db) \<longrightarrow>
          lookup db' k = lookup db k) \<and>
     (err = None \<longleftrightarrow>
        (\<forall>k \<in> set (needed_puts cf head db). \<not> put_fails db k) \<and>
        (\<forall>k \<in> set (legacy_keys cf head db). \<not> delete_fails db k)) \<and>
     (\<forall>e. err = Some e \<longrightarrow>
        (\<exists>k. e = StorageIO k \<and>
           (k \<in> set (needed_puts cf head db) \<and> put_fails db k \<or>
            k \<in> set (legacy_keys cf head db) \<and> delete_fails db k))) \<and>
     (err = None \<longrightarrow>
        (\<exists>db1. upgrade_loop cf head (iterator_keys db) db = Inr (None, db1) \<and>
           (\<forall>k \<in> set (legacy_keys cf head db).
              lookup db1 k = None \<and> (\<exists>b. record_of cf db k = Some b \<and> has_split cf db1 b)) \<and>
           GetBlockByHashOld cf db1 head = Some current \<and>
           split_block cf db1 current = (None, db')) \<and>
        (\<forall>k \<in> set (legacy_keys cf head db).
           lookup db' k = None \<and> (\<exists>b. record_of cf db k = Some b \<and> has_split cf db' b)) \<and>
        has_split cf db' current)"

section \<open>Properties of the reward functions\<close>

lemma euclid_div_pos: "0 < y \<Longrightarrow> euclid_div x y = x div y"
  by (simp add: euclid_div_def)

lemma euclid_div_8: "euclid_div x big8 = x div 8"
  by (simp add: euclid_div_def big8_def)

lemma euclid_div_32: "euclid_div x big32 = x div 32"
  by (simp add: euclid_div_def big32_def)

lemma cell_uncle_reward_in_r:
  "cell (uncle_reward_in_r BlockReward header r uncle h) p =
     (if p = r then ((Number uncle + 8 - Number header) * BlockReward) div 8 else cell h p)"
  by (simp add: uncle_reward_in_r_def big_Add_def big_Sub_def big_Mul_def big_Div_def
      euclid_div_8 Let_def) (simp add: big8_def)

lemma fresh_uncle_reward_in_r:
  "fresh (uncle_reward_in_r BlockReward header r uncle h) = fresh h"
  by (simp add: uncle_reward_in_r_def big_Add_def big_Sub_def big_Mul_def big_Div_def Let_def)

lemma fst_uncle_pass:
  "fst (uncle_pass BlockReward header mr r uncle s) = fst s @ [r]"
  by (simp add: uncle_pass_def Let_def)

lemma cell_uncle_pass:
  "mr \<noteq> r \<Longrightarrow> cell (snd (uncle_pass BlockReward header mr r uncle s)) p =
     (if p = r then BlockReward div 32
      else if p = mr then cell (snd s) mr + BlockReward div 32
      else cell (snd s) p)"
  by (simp add: uncle_pass_def Let_def big_Div_def big_Add_def euclid_div_32
      cell_uncle_reward_in_r)

lemma fresh_uncle_pass:
  "fresh (snd (uncle_pass BlockReward header mr r uncle s)) = fresh (snd s)"
  by (simp add: uncle_pass_def Let_def big_Div_def big_Add_def fresh_uncle_reward_in_r)

lemma fst_uncles_loop:
  "fst (uncles_loop BlockReward header mr r uncles s) = fst s @ replicate (length uncles) r"
  by (induction uncles arbitrary: s) (simp_all add: fst_uncle_pass replicate_app_Cons_same)

lemma fresh_uncles_loop:
  "fresh (snd (uncles_loop BlockReward header mr r uncles s)) = fresh (snd s)"
  by (induction uncles arbitrary: s) (simp_all add: fresh_uncle_pass)

lemma cell_uncles_loop:
  "mr \<noteq> r \<Longrightarrow> cell (snd (uncles_loop BlockReward header mr r uncles s)) p =
     (if p = r then (if uncles = [] then cell (snd s) r else BlockReward div 32)
      else if p = mr then cell (snd s) mr + int (length uncles) * (BlockReward div 32)
      else cell (snd s) p)"
proof (induction uncles arbitrary: s)
  case Nil
  then show ?case by simp
next
  case (Cons u us)
  then show ?case
    by (simp add: cell_uncle_pass algebra_simps)
qed

lemma AccumulateRewards_unfold:
  "AccumulateRewards BlockReward statedb header uncles h =
     (let h3 = h\<lparr>cell := (cell h)(fresh h := BlockReward, Suc (fresh h) := 0),
                  fresh := Suc (Suc (fresh h))\<rparr>;
          s = uncles_loop BlockReward header (fresh h) (Suc (fresh h)) uncles ([], h3)
      in (fst s @ [fresh h], snd s, statedb))"
  by (simp add: AccumulateRewards_def new_Int_def big_Set_def Let_def split: prod.splits)

lemma AccumulateRewards_eq:
  assumes "AccumulateRewards BlockReward statedb header uncles h = (rewards, h', statedb')"
  shows "rewards = replicate (length uncles) (Suc (fresh h)) @ [fresh h]"
    and "statedb' = statedb"
    and "fresh h' = Suc (Suc (fresh h))"
    and "cell h' p =
        (if p = Suc (fresh h) then (if uncles = [] then 0 else BlockReward div 32)
         else if p = fresh h then BlockReward + int (length uncles) * (BlockReward div 32)
         else cell h p)"
proof -
  define h3 where "h3 = h\<lparr>cell := (cell h)(fresh h := BlockReward, Suc (fresh h) := 0),
                  fresh := Suc (Suc (fresh h))\<rparr>"
  define s where "s = uncles_loop BlockReward header (fresh h) (Suc (fresh h)) uncles ([], h3)"
  from assms have r: "rewards = fst s @ [fresh h]" and h': "h' = snd s" and "statedb' = statedb"
    by (simp_all add: AccumulateRewards_unfold Let_def s_def h3_def)
  then show "statedb' = statedb" by simp
  show "rewards = replicate (length uncles) (Suc (fresh h)) @ [fresh h]"
    by (simp add: r s_def fst_uncles_loop)
  show "fresh h' = Suc (Suc (fresh h))"
    by (simp add: h' s_def fresh_uncles_loop h3_def)
  have ne: "fresh h \<noteq> Suc (fresh h)" by simp
  show "cell h' p =
        (if p = Suc (fresh h) then (if uncles = [] then 0 else BlockReward div 32)
         else if p = fresh h then BlockReward + int (length uncles) * (BlockReward div 32)
         else cell h p)"
    unfolding h' s_def cell_uncles_loop [OF ne] by (simp add: h3_def)
qed


lemma credit_all_Nil: "credit_all add_balance statedb [] = statedb"
  by (simp add: credit_all_def)

lemma credit_all_Cons:
  "credit_all add_balance statedb (p # pays) =
     credit_all add_balance (add_balance statedb (fst p) (snd p)) pays"
  by (simp add: credit_all_def)

lemma credit_all_snoc:
  "credit_all add_balance statedb (pays @ [p]) =
     add_balance (credit_all add_balance statedb pays) (fst p) (snd p)"
  by (simp add: credit_all_def)

lemma credit_all_record_call: "credit_all record_call calls pays = calls @ pays"
  by (induction pays arbitrary: calls) (simp_all add: credit_all_Nil credit_all_Cons record_call_def)

lemma balance_credit_all:
  "balance (credit_all AddBalance statedb pays) a = balance statedb a + paid_to a pays"
proof (induction pays arbitrary: statedb)
  case Nil
  show ?case by (simp add: credit_all_Nil paid_to_def)
next
  case (Cons p pays)
  have "paid_to a (p # pays) = (if fst p = a then snd p else 0) + paid_to a pays"
    by (simp add: paid_to_def)
  moreover have "balance (AddBalance statedb (fst p) (snd p)) a =
      balance statedb a + (if fst p = a then snd p else 0)"
    by (simp add: AddBalance_def)
  ultimately show ?case
    by (simp add: credit_all_Cons Cons.IH)
qed

lemma paid_to_outsider: "a \<notin> fst ` set pays \<Longrightarrow> paid_to a pays = 0"
  by (induction pays) (auto simp: paid_to_def)

lemma PayRewards_loop_ok:
  "i + length uncles \<le> length rewards \<Longrightarrow>
   PayRewards_loop add_balance h rewards uncles i statedb =
     Inr (i + length uncles,
          credit_all add_balance statedb
            (zip (map Coinbase uncles) (map (cell h) (take (length uncles) (drop i rewards)))))"
proof (induction uncles arbitrary: i statedb)
  case Nil
  show ?case by (simp add: credit_all_Nil)
next
  case (Cons u us)
  then have i: "i < length rewards" and le: "Suc i + length us \<le> length rewards"
    by simp_all
  have d: "drop i rewards = rewards ! i # drop (Suc i) rewards"
    using i by (simp add: Cons_nth_drop_Suc)
  show ?case
    using i by (simp add: Cons.IH [OF le] d credit_all_Cons)
qed

lemma PayRewards_ok:
  assumes "length rewards = Suc (length uncles)"
  shows "PayRewards add_balance statedb header uncles rewards h =
     Inr (credit_all add_balance statedb
            (zip (map Coinbase uncles @ [Coinbase header]) (amounts h rewards)))"
proof -
  let ?k = "length uncles"
  have r: "rewards = take ?k rewards @ [rewards ! ?k]"
    using assms by (metis lessI take_Suc_conv_app_nth take_all order_refl)
  have z: "zip (map Coinbase uncles @ [Coinbase header]) (amounts h rewards) =
           zip (map Coinbase uncles) (map (cell h) (take ?k rewards)) @
             [(Coinbase header, cell h (rewards ! ?k))]"
    unfolding amounts_def by (subst r) (simp add: assms)
  have "PayRewards_loop add_balance h rewards uncles 0 statedb =
     Inr (?k, credit_all add_balance statedb
                (zip (map Coinbase uncles) (map (cell h) (take ?k rewards))))"
    using PayRewards_loop_ok [of 0 uncles rewards add_balance h statedb] assms by simp
  then show ?thesis
    unfolding z by (simp add: PayRewards_def assms credit_all_snoc)
qed

lemma AccumulateRewards_proj:
  "fst (AccumulateRewards BlockReward statedb header uncles h) =
     replicate (length uncles) (Suc (fresh h)) @ [fresh h]"
  "snd (snd (AccumulateRewards BlockReward statedb header uncles h)) = statedb"
  "cell (fst (snd (AccumulateRewards BlockReward statedb header uncles h))) p =
        (if p = Suc (fresh h) then (if uncles = [] then 0 else BlockReward div 32)
         else if p = fresh h then BlockReward + int (length uncles) * (BlockReward div 32)
         else cell h p)"
proof -
  obtain rewards h' statedb' where
    e: "AccumulateRewards BlockReward statedb header uncles h = (rewards, h', statedb')"
    by (cases "AccumulateRewards BlockReward statedb header uncles h") auto
  show "fst (AccumulateRewards BlockReward statedb header uncles h) =
     replicate (length uncles) (Suc (fresh h)) @ [fresh h]"
    using AccumulateRewards_eq(1) [OF e] e by simp
  show "snd (snd (AccumulateRewards BlockReward statedb header uncles h)) = statedb"
    using AccumulateRewards_eq(2) [OF e] e by simp
  show "cell (fst (snd (AccumulateRewards BlockReward statedb header uncles h))) p =
        (if p = Suc (fresh h) then (if uncles = [] then 0 else BlockReward div 32)
         else if p = fresh h then BlockReward + int (length uncles) * (BlockReward div 32)
         else cell h p)"
    using AccumulateRewards_eq(4) [OF e, of p] e by simp
qed

text \<open>Claim C1. For a header of number 10 with one uncle of number 9 and
  \<^verbatim>\<open>BlockReward = 5\<close> the specification expects the rewards \<open>[4, 5]\<close>. The uncle's entry
  of the returned slice is the pointer \<open>r\<close>, and \<open>r\<close> is overwritten with \<open>5 / 32 = 0\<close>
  before the function returns: the amounts read through the slice are \<open>[0, 5]\<close>, and
  \<^verbatim>\<open>PayRewards\<close> credits the uncle's coinbase (address 2) with 0 and the block's coinbase
  (address 1) with 5.\<close>

theorem AccumulateRewards_one_uncle_example:
  "amounts
     (fst (snd (AccumulateRewards 5 no_accounts \<lparr>Number = 10, Coinbase = 1, GasLimit = 0\<rparr>
        [\<lparr>Number = 9, Coinbase = 2, GasLimit = 0\<rparr>] empty_heap)))
     (fst (AccumulateRewards 5 no_accounts \<lparr>Number = 10, Coinbase = 1, GasLimit = 0\<rparr>
        [\<lparr>Number = 9, Coinbase = 2, GasLimit = 0\<rparr>] empty_heap)) = [0, 5] \<and>
   map_sum id (\<lambda>s. (balance s 2, balance s 1))
     (PayRewards AddBalance no_accounts \<lparr>Number = 10, Coinbase = 1, GasLimit = 0\<rparr>
        [\<lparr>Number = 9, Coinbase = 2, GasLimit = 0\<rparr>]
        (fst (AccumulateRewards 5 no_accounts \<lparr>Number = 10, Coinbase = 1, GasLimit = 0\<rparr>
           [\<lparr>Number = 9, Coinbase = 2, GasLimit = 0\<rparr>] empty_heap))
        (fst (snd (AccumulateRewards 5 no_accounts \<lparr>Number = 10, Coinbase = 1, GasLimit = 0\<rparr>
           [\<lparr>Number = 9, Coinbase = 2, GasLimit = 0\<rparr>] empty_heap)))) = Inr (0, 5)"
  by (simp add: amounts_def AccumulateRewards_def new_Int_def big_Set_def uncle_pass_def
      uncle_reward_in_r_def big_Add_def big_Sub_def big_Mul_def big_Div_def euclid_div_def
      big8_def big32_def empty_heap_def Let_def PayRewards_def AddBalance_def no_accounts_def)

text \<open>Claim C2. The claim expects the entry of each uncle \<open>u\<close> to be
  \<open>(u.number + 8 - h.number) * BlockReward / 8\<close>. Every uncle entry of the returned slice
  is the one pointer \<open>r\<close>, and \<open>r\<close> holds \<^verbatim>\<open>BlockReward / 32\<close> when the function returns: for
  every header and every list of \<open>k\<close> uncles the amounts read through the slice are \<open>k\<close>
  times \<^verbatim>\<open>BlockReward / 32\<close>, followed by the miner's amount. With \<^verbatim>\<open>BlockReward = 64\<close>, a
  header of number 10 and uncles of numbers 9 and 8 the function returns \<open>[2, 2, 68]\<close>,
  where the claim's formula gives \<open>[56, 48, 68]\<close>.\<close>

theorem AccumulateRewards_uncle_entries_overwritten:
  "amounts (fst (snd (AccumulateRewards BlockReward statedb header uncles h)))
     (fst (AccumulateRewards BlockReward statedb header uncles h)) =
     replicate (length uncles) (BlockReward div 32) @
     [BlockReward + int (length uncles) * (BlockReward div 32)] \<and>
   amounts
     (fst (snd (AccumulateRewards 64 no_accounts \<lparr>Number = 10, Coinbase = 1, GasLimit = 0\<rparr>
        [\<lparr>Number = 9, Coinbase = 2, GasLimit = 0\<rparr>, \<lparr>Number = 8, Coinbase = 3, GasLimit = 0\<rparr>]
        empty_heap)))
     (fst (AccumulateRewards 64 no_accounts \<lparr>Number = 10, Coinbase = 1, GasLimit = 0\<rparr>
        [\<lparr>Number = 9, Coinbase = 2, GasLimit = 0\<rparr>, \<lparr>Number = 8, Coinbase = 3, GasLimit = 0\<rparr>]
        empty_heap)) = [2, 2, 68] \<and>
   [spec_trunc_div ((9 + 8 - 10) * 64) 8, spec_trunc_div ((8 + 8 - 10) * 64) 8,
    64 + 2 * spec_trunc_div 64 32] = [56, 48, 68]"
proof -
  have "amounts (fst (snd (AccumulateRewards R s hd us hp)))
     (fst (AccumulateRewards R s hd us hp)) =
     replicate (length us) (R div 32) @ [R + int (length us) * (R div 32)]" for R s hd us hp
    by (cases us) (simp_all add: amounts_def AccumulateRewards_proj)
  then show ?thesis
    by (simp add: spec_trunc_div_def)
qed

text \<open>Claim C5. For the reward slice that \<^verbatim>\<open>AccumulateRewards\<close> returns, \<^verbatim>\<open>PayRewards\<close> does
  not panic and calls \<^verbatim>\<open>AddBalance\<close> once for each uncle's coinbase, in uncle order, with
  the amount read through the slice, and then once for the block's coinbase with the
  last amount. This holds whatever the method does, so the order of the calls is
  fixed: with the method that records its calls, the record is the list of the uncles'
  coinbases and amounts in uncle order followed by the block's coinbase and amount.
  With the method of the world state each balance grows by the sum of the amounts
  paid to that address, and the balance of every address that is neither an uncle's
  coinbase nor the block's is unchanged.\<close>

theorem PayRewards_credits_beneficiaries:
  assumes "AccumulateRewards BlockReward statedb header uncles h = (rewards, h', statedb')"
  shows "PayRewards add_balance s header uncles rewards h' =
           Inr (credit_all add_balance s
                  (zip (map Coinbase uncles @ [Coinbase header]) (amounts h' rewards))) \<and>
         PayRewards record_call calls header uncles rewards h' =
           Inr (calls @ zip (map Coinbase uncles @ [Coinbase header]) (amounts h' rewards)) \<and>
         (\<forall>a. balance (credit_all AddBalance statedb'
                  (zip (map Coinbase uncles @ [Coinbase header]) (amounts h' rewards))) a =
               balance statedb' a +
               paid_to a (zip (map Coinbase uncles @ [Coinbase header]) (amounts h' rewards))) \<and>
         (\<forall>a. a \<notin> set (map Coinbase uncles @ [Coinbase header]) \<longrightarrow>
               balance (credit_all AddBalance statedb'
                  (zip (map Coinbase uncles @ [Coinbase header]) (amounts h' rewards))) a =
               balance statedb' a)"
proof -
  let ?pays = "zip (map Coinbase uncles @ [Coinbase header]) (amounts h' rewards)"
  have len: "length rewards = Suc (length uncles)"
    using AccumulateRewards_eq(1) [OF assms] by simp
  have out: "paid_to a ?pays = 0" if "a \<notin> set (map Coinbase uncles @ [Coinbase header])" for a
  proof (rule paid_to_outsider)
    have "fst ` set ?pays \<subseteq> set (map Coinbase uncles @ [Coinbase header])"
      by (auto dest: set_zip_leftD)
    with that show "a \<notin> fst ` set ?pays" by blast
  qed
  have 1: "PayRewards add_balance s header uncles rewards h' =
      Inr (credit_all add_balance s ?pays)"
    by (rule PayRewards_ok [OF len])
  have 2: "PayRewards record_call calls header uncles rewards h' = Inr (calls @ ?pays)"
    by (simp add: PayRewards_ok [OF len] credit_all_record_call)
  show ?thesis
    using 1 2 out by (simp add: balance_credit_all)
qed

theorem PayRewards_credits_beneficiaries_witness:
  "AccumulateRewards 64 no_accounts \<lparr>Number = 10, Coinbase = 1, GasLimit = 0\<rparr>
     [\<lparr>Number = 9, Coinbase = 2, GasLimit = 0\<rparr>, \<lparr>Number = 8, Coinbase = 1, GasLimit = 0\<rparr>]
     empty_heap =
     ([1, 1, 0], \<lparr>cell = (\<lambda>p. 0)(0 := 68, 1 := 2), fresh = 2\<rparr>, no_accounts) \<and>
   PayRewards record_call [] \<lparr>Number = 10, Coinbase = 1, GasLimit = 0\<rparr>
       [\<lparr>Number = 9, Coinbase = 2, GasLimit = 0\<rparr>, \<lparr>Number = 8, Coinbase = 1, GasLimit = 0\<rparr>]
       [1, 1, 0] \<lparr>cell = (\<lambda>p. 0)(0 := 68, 1 := 2), fresh = 2\<rparr> =
     Inr [(2, 2), (1, 2), (1, 68)] \<and>
   map_sum id (\<lambda>s. (balance s 1, balance s 2, balance s 3))
     (PayRewards AddBalance no_accounts \<lparr>Number = 10, Coinbase = 1, GasLimit = 0\<rparr>
       [\<lparr>Number = 9, Coinbase = 2, GasLimit = 0\<rparr>, \<lparr>Number = 8, Coinbase = 1, GasLimit = 0\<rparr>]
       [1, 1, 0] \<lparr>cell = (\<lambda>p. 0)(0 := 68, 1 := 2), fresh = 2\<rparr>) = Inr (70, 2, 0)"
proof -
  have a: "AccumulateRewards 64 no_accounts \<lparr>Number = 10, Coinbase = 1, GasLimit = 0\<rparr>
     [\<lparr>Number = 9, Coinbase = 2, GasLimit = 0\<rparr>, \<lparr>Number = 8, Coinbase = 1, GasLimit = 0\<rparr>]
     empty_heap =
     ([1, 1, 0], \<lparr>cell = (\<lambda>p. 0)(0 := 68, 1 := 2), fresh = 2\<rparr>, no_accounts)"
    by (simp add: AccumulateRewards_def new_Int_def big_Set_def uncle_pass_def
      uncle_reward_in_r_def big_Add_def big_Sub_def big_Mul_def big_Div_def euclid_div_def
      big8_def big32_def empty_heap_def Let_def fun_eq_iff)
  show ?thesis
    using a PayRewards_credits_beneficiaries [OF a, of AddBalance no_accounts "[]"]
    by (simp add: credit_all_def amounts_def AddBalance_def no_accounts_def)
qed

text \<open>Claim C6. \<^verbatim>\<open>AccumulateRewards\<close> leaves the world state as it was handed over, and
  it changes no \<^verbatim>\<open>big.Int\<close> object that existed before the call.\<close>

theorem AccumulateRewards_no_mutation:
  "snd (snd (AccumulateRewards BlockReward statedb header uncles h)) = statedb \<and>
   (\<forall>p. p < fresh h \<longrightarrow>
      cell (fst (snd (AccumulateRewards BlockReward statedb header uncles h))) p = cell h p)"
  by (simp add: AccumulateRewards_proj)

theorem AccumulateRewards_no_mutation_witness:
  "(0::nat) < fresh \<lparr>cell = (\<lambda>p. 7), fresh = 1\<rparr> \<and>
   cell (fst (snd (AccumulateRewards 5 no_accounts \<lparr>Number = 10, Coinbase = 1, GasLimit = 0\<rparr>
                [\<lparr>Number = 9, Coinbase = 2, GasLimit = 0\<rparr>] \<lparr>cell = (\<lambda>p. 7), fresh = 1\<rparr>))) 0 = 7 \<and>
   snd (snd (AccumulateRewards 5 no_accounts \<lparr>Number = 10, Coinbase = 1, GasLimit = 0\<rparr>
                [\<lparr>Number = 9, Coinbase = 2, GasLimit = 0\<rparr>] \<lparr>cell = (\<lambda>p. 7), fresh = 1\<rparr>)) =
     no_accounts"
  using AccumulateRewards_no_mutation [of 5 no_accounts
      "\<lparr>Number = 10, Coinbase = 1, GasLimit = 0\<rparr>" "[\<lparr>Number = 9, Coinbase = 2, GasLimit = 0\<rparr>]"
      "\<lparr>cell = (\<lambda>p. 7), fresh = 1\<rparr>"]
  by simp

section \<open>Properties of block processing\<close>

lemma process_loop_append:
  "process_loop ext hdr bh (pre @ rest) i vars =
     (case process_loop ext hdr bh pre i vars of
        Inl x \<Rightarrow> Inl x
      | Inr vars' \<Rightarrow> process_loop ext hdr bh rest (i + length pre) vars')"
  by (induction pre arbitrary: i vars) (auto split: prod.splits sum.splits)


lemma ApplyTransaction_Inl:
  "ApplyTransaction ext gp statedb hdr tx usedGas = (Inl err, gp1, statedb1, used1) \<longleftrightarrow>
     ApplyMessage ext statedb hdr tx gp = (Inl err, statedb1, gp1) \<and> used1 = usedGas"
  by (auto simp: ApplyTransaction_def Let_def split: prod.splits sum.splits)








text \<open>Claim C4. If the transactions before \<open>tx\<close> execute and the executor fails on \<open>tx\<close>
  with \<open>err\<close>, \<^verbatim>\<open>Process\<close> returns \<open>err\<close> with a nil receipt list and a nil log list
  and the gas used so far, and leaves the world state as the failing call left it:
  the transactions after \<open>tx\<close> have no influence on the result, and no reward is
  paid.\<close>

theorem Process_aborts_on_failure:
  assumes "blk_Transactions block = pre @ tx # post"
    and "process_loop ext (blk_Header block) (blk_Hash block) pre 0 (initial_vars block statedb) =
           Inr vars"
    and "ApplyMessage ext
           (StartRecord (v_statedb vars) (tx_Hash tx) (blk_Hash block) (length pre))
           (blk_Header block) tx (v_gp vars) = (Inl err, statedb1, gp1)"
  shows "Process ext BlockReward block statedb h =
     Inr \<lparr>out_receipts = [], out_logs = [], out_gas = v_totalUsedGas vars,
          out_err = Some err, out_statedb = statedb1\<rparr>"
proof -
  have "ApplyTransaction ext (v_gp vars)
          (StartRecord (v_statedb vars) (tx_Hash tx) (blk_Hash block) (length pre))
          (blk_Header block) tx (v_totalUsedGas vars) = (Inl err, gp1, statedb1, v_totalUsedGas vars)"
    using assms(3) by (simp add: ApplyTransaction_Inl)
  then have "process_loop ext (blk_Header block) (blk_Hash block) (tx # post) (length pre) vars =
      Inl (err, vars\<lparr>v_statedb := statedb1, v_gp := gp1, v_totalUsedGas := v_totalUsedGas vars\<rparr>)"
    by simp
  then have "process_loop ext (blk_Header block) (blk_Hash block) (blk_Transactions block) 0
      (initial_vars block statedb) =
      Inl (err, vars\<lparr>v_statedb := statedb1, v_gp := gp1, v_totalUsedGas := v_totalUsedGas vars\<rparr>)"
    by (simp add: assms(1,2) process_loop_append)
  then show ?thesis
    by (simp add: Process_def)
qed

theorem Process_aborts_on_failure_witness:
  "blk_Transactions (example_block 50000) =
     [\<lparr>tx_Hash = 11, tx_From = 3, tx_Nonce = 0\<rparr>, \<lparr>tx_Hash = 12, tx_From = 4, tx_Nonce = 0\<rparr>] @
     \<lparr>tx_Hash = 13, tx_From = 3, tx_Nonce = 1\<rparr> # [] \<and>
   (\<exists>out. Process example_externals 5 (example_block 50000) no_accounts empty_heap = Inr out \<and>
      out_receipts out = [] \<and> out_logs out = [] \<and> out_gas out = 42000 \<and>
      out_err out = Some OutOfGas \<and> balance (out_statedb out) 1 = 0)"
proof -
  let ?B = "example_block 50000"
  let ?pre = "[\<lparr>tx_Hash = 11, tx_From = 3, tx_Nonce = 0\<rparr>, \<lparr>tx_Hash = 12, tx_From = 4, tx_Nonce = 0\<rparr>]"
  let ?tx = "\<lparr>tx_Hash = 13, tx_From = 3, tx_Nonce = 1\<rparr>"
  have t: "blk_Transactions ?B = ?pre @ ?tx # []"
    by (simp add: example_block_def)
  have "\<exists>vars. process_loop example_externals (blk_Header ?B) (blk_Hash ?B) ?pre 0
           (initial_vars ?B no_accounts) = Inr vars \<and> v_gp vars = 8000 \<and>
           v_totalUsedGas vars = 42000 \<and> balance (v_statedb vars) 1 = 0"
    by (simp add: example_block_def example_externals_def initial_vars_def
        ApplyTransaction_def StartRecord_def AddBalance_def GetLogs_def Let_def no_accounts_def)
  then obtain vars where
    l: "process_loop example_externals (blk_Header ?B) (blk_Hash ?B) ?pre 0
           (initial_vars ?B no_accounts) = Inr vars"
    and v: "v_gp vars = 8000" "v_totalUsedGas vars = 42000" "balance (v_statedb vars) 1 = 0"
    by blast
  have m: "ApplyMessage example_externals
           (StartRecord (v_statedb vars) (tx_Hash ?tx) (blk_Hash ?B) (length ?pre))
           (blk_Header ?B) ?tx (v_gp vars) =
         (Inl OutOfGas,
          StartRecord (v_statedb vars) (tx_Hash ?tx) (blk_Hash ?B) (length ?pre), v_gp vars)"
    by (simp add: example_externals_def v)
  show ?thesis
    using t Process_aborts_on_failure [OF t l m, of 5 empty_heap] v
    by (simp add: StartRecord_def)
qed

section \<open>Properties of the store and of the migrator\<close>

lemma same_kind_refl: "same_kind db db"
  by (simp add: same_kind_def)

lemma same_kind_trans: "same_kind a b \<Longrightarrow> same_kind b c \<Longrightarrow> same_kind a c"
  by (simp add: same_kind_def)

lemma db_Put_cases:
  obtains (fail) "put_fails db key" "db_Put db key v = (Some (StorageIO key), db)"
  | (ok) db' where "\<not> put_fails db key" "db_Put db key v = (None, db')" "same_kind db db'"
      "\<And>k. lookup db' k = (if k = key then Some v else lookup db k)"
proof (cases "put_fails db key")
  case True
  then show ?thesis by (intro fail) (simp_all add: db_Put_def)
next
  case False
  show ?thesis
  proof (rule ok [of "db\<lparr>entries := AList.update key v (entries db)\<rparr>"])
    show "\<not> put_fails db key" by (fact False)
    show "db_Put db key v = (None, db\<lparr>entries := AList.update key v (entries db)\<rparr>)"
      using False by (simp add: db_Put_def)
    show "same_kind db (db\<lparr>entries := AList.update key v (entries db)\<rparr>)"
      by (simp add: same_kind_def)
    show "lookup (db\<lparr>entries := AList.update key v (entries db)\<rparr>) k =
        (if k = key then Some v else lookup db k)" for k
      by (simp add: lookup_def update_conv')
  qed
qed

lemma db_Delete_cases:
  obtains (fail) "delete_fails db key" "db_Delete db key = (Some (StorageIO key), db)"
  | (ok) db' where "\<not> delete_fails db key" "db_Delete db key = (None, db')" "same_kind db db'"
      "\<And>k. lookup db' k = (if k = key then None else lookup db k)"
proof (cases "delete_fails db key")
  case True
  then show ?thesis by (intro fail) (simp_all add: db_Delete_def)
next
  case False
  show ?thesis
  proof (rule ok [of "db\<lparr>entries := AList.delete key (entries db)\<rparr>"])
    show "\<not> delete_fails db key" by (fact False)
    show "db_Delete db key = (None, db\<lparr>entries := AList.delete key (entries db)\<rparr>)"
      using False by (simp add: db_Delete_def)
    show "same_kind db (db\<lparr>entries := AList.delete key (entries db)\<rparr>)"
      by (simp add: same_kind_def)
    show "lookup (db\<lparr>entries := AList.delete key (entries db)\<rparr>) k =
        (if k = key then None else lookup db k)" for k
      by (simp add: lookup_def delete_conv')
  qed
qed

lemma set_iterator_keys: "set (iterator_keys db) = dom (lookup db)"
proof -
  have "lookup db = map_of (entries db)"
    by (rule ext) (simp add: lookup_def)
  then show ?thesis
    by (simp add: iterator_keys_def dom_map_of_conv_image_fst)
qed

lemma distinct_iterator_keys: "distinct (iterator_keys db)"
  by (simp add: iterator_keys_def)

lemma db_Get_cong:
  "same_kind db db' \<Longrightarrow> lookup db' key = lookup db key \<Longrightarrow> db_Get db' key = db_Get db key"
  by (simp add: db_Get_def same_kind_def)

lemma GetBlockByHashOld_cong:
  "same_kind db db' \<Longrightarrow>
   lookup db' (blockPrefix @ HashBytes cf hash) = lookup db (blockPrefix @ HashBytes cf hash) \<Longrightarrow>
   GetBlockByHashOld cf db' hash = GetBlockByHashOld cf db hash"
  by (simp add: GetBlockByHashOld_def db_Get_cong)

lemma GetBlockByHashOld_Some_lookup:
  "GetBlockByHashOld cf db hash = Some b \<Longrightarrow>
     lookup db (blockPrefix @ HashBytes cf hash) \<noteq> None"
  by (auto simp: GetBlockByHashOld_def db_Get_def split: if_splits option.splits sum.splits)

lemma split_block_effect:
  obtains err db' where "split_block cf db b = (err, db')" "same_kind db db'"
    "\<And>k. k \<notin> set (new_keys cf b) \<Longrightarrow> lookup db' k = lookup db k"
    "err = None \<longleftrightarrow> (\<forall>k \<in> set (new_keys cf b). \<not> put_fails db k)"
    "\<And>e. err = Some e \<Longrightarrow> \<exists>k \<in> set (new_keys cf b). put_fails db k \<and> e = StorageIO k"
    "err = None \<Longrightarrow> distinct (new_keys cf b) \<Longrightarrow> has_split cf db' b"
proof -
  let ?k1 = "tdKey cf (blk_Hash b)" and ?v1 = "EncodeTd cf (blk_DeprecatedTd b)"
  let ?k2 = "bodyKey cf (blk_Hash b)"
    and ?v2 = "EncodeBody cf (blk_Transactions b, blk_Uncles b)"
  let ?k3 = "headerKey cf (blk_Header b)" and ?v3 = "EncodeHeader cf (blk_Header b)"
  show ?thesis
  proof (cases rule: db_Put_cases [of db ?k1 ?v1])
    case fail
    show ?thesis
      by (rule that [of "Some (StorageIO ?k1)" db])
        (use fail in \<open>auto simp: split_block_def WriteTd_def same_kind_refl new_keys_def\<close>)
  next
    case (ok db1)
    note ok1 = ok
    show ?thesis
    proof (cases rule: db_Put_cases [of db1 ?k2 ?v2])
      case fail
      have pf: "put_fails db ?k2"
        using fail(1) ok1(3) by (simp add: same_kind_def)
      show ?thesis
        by (rule that [of "Some (StorageIO ?k2)" db1])
          (use fail ok1 pf in \<open>auto simp: split_block_def WriteTd_def WriteBody_def new_keys_def\<close>)
    next
      case (ok db2)
      note ok2 = ok
      have k12: "same_kind db db2"
        using ok1(3) ok2(3) by (rule same_kind_trans)
      show ?thesis
      proof (cases rule: db_Put_cases [of db2 ?k3 ?v3])
        case fail
        have pf: "put_fails db ?k3"
          using fail(1) k12 by (simp add: same_kind_def)
        have np: "\<not> put_fails db ?k2"
          using ok2(1) ok1(3) by (simp add: same_kind_def)
        show ?thesis
          by (rule that [of "Some (StorageIO ?k3)" db2])
            (use fail ok1 ok2 pf np k12 in
              \<open>auto simp: split_block_def WriteTd_def WriteBody_def WriteHeader_def new_keys_def\<close>)
      next
        case (ok db3)
        have np2: "\<not> put_fails db ?k2"
          using ok2(1) ok1(3) by (simp add: same_kind_def)
        have np3: "\<not> put_fails db ?k3"
          using ok(1) k12 by (simp add: same_kind_def)
        have k13: "same_kind db db3"
          using k12 ok(3) by (rule same_kind_trans)
        show ?thesis
          by (rule that [of None db3])
            (use ok ok1 ok2 np2 np3 k13 in
              \<open>auto simp: split_block_def WriteTd_def WriteBody_def WriteHeader_def new_keys_def
                 has_split_def\<close>)
      qed
    qed
  qed
qed

lemma split_block_ex:
  "\<exists>err db'. split_block cf db b = (err, db') \<and> same_kind db db' \<and>
     (\<forall>k. k \<notin> set (new_keys cf b) \<longrightarrow> lookup db' k = lookup db k) \<and>
     (err = None \<longleftrightarrow> (\<forall>k \<in> set (new_keys cf b). \<not> put_fails db k)) \<and>
     (\<forall>e. err = Some e \<longrightarrow> (\<exists>k \<in> set (new_keys cf b). put_fails db k \<and> e = StorageIO k)) \<and>
     (err = None \<longrightarrow> distinct (new_keys cf b) \<longrightarrow> has_split cf db' b)"
  by (rule split_block_effect [of cf db b]) blast

lemma has_split_cong:
  "has_split cf db b \<Longrightarrow> (\<And>k. k \<in> set (new_keys cf b) \<Longrightarrow> lookup db' k = lookup db k) \<Longrightarrow>
     has_split cf db' b"
  by (simp add: has_split_def new_keys_def)

lemma map_filter_cong_set:
  "(\<And>x. x \<in> set xs \<Longrightarrow> f x = g x) \<Longrightarrow> List.map_filter f xs = List.map_filter g xs"
  by (induction xs) (auto split: option.splits)

lemma loop_keys_Cons:
  "loop_keys cf head (k # ks) =
     (if HasPrefix k blockPrefix \<and> \<not> HasSuffix k (HashBytes cf head)
      then k # loop_keys cf head ks else loop_keys cf head ks)"
  by (simp add: loop_keys_def)

lemma loop_keys_subset: "set (loop_keys cf head ks) \<subseteq> set ks"
  by (auto simp: loop_keys_def)

lemma loop_keys_prefix: "k \<in> set (loop_keys cf head ks) \<Longrightarrow> HasPrefix k blockPrefix"
  by (simp add: loop_keys_def)

lemma record_of_cong:
  assumes "same_kind db db'"
    and "blockPrefix @ HashBytes cf (BytesToHash cf (TrimPrefix k blockPrefix)) = k"
    and "lookup db' k = lookup db k"
  shows "record_of cf db' k = record_of cf db k"
  unfolding record_of_def
  by (rule GetBlockByHashOld_cong [OF assms(1)]) (simp add: assms(2,3))

lemma upgrade_loop_summary:
  assumes "distinct ks"
    and "\<forall>k \<in> set (loop_keys cf head ks).
           blockPrefix @ HashBytes cf (BytesToHash cf (TrimPrefix k blockPrefix)) = k \<and>
           record_of cf db k \<noteq> None"
    and "distinct (concat (map (new_keys cf)
           (List.map_filter (record_of cf db) (loop_keys cf head ks))))"
    and "\<forall>k \<in> set (concat (map (new_keys cf)
           (List.map_filter (record_of cf db) (loop_keys cf head ks)))).
           \<not> HasPrefix k blockPrefix"
  shows "\<exists>err db'. upgrade_loop cf head ks db = Inr (err, db') \<and>
           loop_summary cf head ks db err db'"
  using assms
proof (induction ks arbitrary: db)
  case Nil
  show ?case
    by (simp add: loop_summary_def loop_keys_def same_kind_refl)
next
  case (Cons k ks)
  show ?case
  proof (cases "HasPrefix k blockPrefix \<and> \<not> HasSuffix k (HashBytes cf head)")
    case False
    then have lk: "loop_keys cf head (k # ks) = loop_keys cf head ks"
      by (simp add: loop_keys_Cons)
    have ul: "upgrade_loop cf head (k # ks) db = upgrade_loop cf head ks db"
      using False by auto
    from Cons.prems have "distinct ks" by simp
    from Cons.IH [OF this Cons.prems(2-4) [unfolded lk]]
    show ?thesis
      unfolding ul loop_summary_def lk .
  next
    case True
    let ?L' = "loop_keys cf head ks"
    let ?bs' = "List.map_filter (record_of cf db) ?L'"
    let ?N' = "concat (map (new_keys cf) ?bs')"
    have lk: "loop_keys cf head (k # ks) = k # ?L'"
      using True by (simp add: loop_keys_Cons)
    from Cons.prems(2) obtain b where b: "record_of cf db k = Some b"
      and rt: "blockPrefix @ HashBytes cf (BytesToHash cf (TrimPrefix k blockPrefix)) = k"
      unfolding lk by auto
    have bs: "List.map_filter (record_of cf db) (k # ?L') = b # ?bs'"
      by (simp add: b)
    have N: "concat (map (new_keys cf) (List.map_filter (record_of cf db) (k # ?L'))) =
               new_keys cf b @ ?N'"
      by (simp add: b)
    have dk: "k \<notin> set ks" and dks: "distinct ks"
      using Cons.prems(1) by simp_all
    have wf': "\<forall>k' \<in> set ?L'.
           blockPrefix @ HashBytes cf (BytesToHash cf (TrimPrefix k' blockPrefix)) = k' \<and>
           record_of cf db k' \<noteq> None"
      using Cons.prems(2) unfolding lk by simp
    have dnb: "distinct (new_keys cf b)" and dn': "distinct ?N'"
      and disj: "set (new_keys cf b) \<inter> set ?N' = {}"
      using Cons.prems(3) unfolding lk N by simp_all
    have npb: "\<forall>\<kappa> \<in> set (new_keys cf b). \<not> HasPrefix \<kappa> blockPrefix"
      and np': "\<forall>\<kappa> \<in> set ?N'. \<not> HasPrefix \<kappa> blockPrefix"
      using Cons.prems(4) unfolding lk N by simp_all
    have kpre: "HasPrefix k blockPrefix" using True by simp
    have k_not_new: "k \<notin> set (new_keys cf b)" "k \<notin> set ?N'"
      using kpre npb np' by blast+
    have L'_not_new: "k' \<notin> set (new_keys cf b)" "k' \<notin> set ?N'" "k' \<noteq> k"
      if "k' \<in> set ?L'" for k'
      using that loop_keys_prefix [OF that] npb np' dk loop_keys_subset [of cf head ks]
      by blast+
    have new_not_L': "\<kappa> \<notin> set ?L'" if "\<kappa> \<in> set (new_keys cf b)" for \<kappa>
      using that npb loop_keys_prefix by blast
    have gb: "GetBlockByHashOld cf db (BytesToHash cf (TrimPrefix k blockPrefix)) = Some b"
      using b by (simp add: record_of_def)
    obtain err1 db1 where s: "split_block cf db b = (err1, db1)" and k1: "same_kind db db1"
      and f1: "\<And>\<kappa>. \<kappa> \<notin> set (new_keys cf b) \<Longrightarrow> lookup db1 \<kappa> = lookup db \<kappa>"
      and e1: "err1 = None \<longleftrightarrow> (\<forall>\<kappa> \<in> set (new_keys cf b). \<not> put_fails db \<kappa>)"
      and e1': "\<And>e. err1 = Some e \<Longrightarrow> \<exists>\<kappa> \<in> set (new_keys cf b). put_fails db \<kappa> \<and> e = StorageIO \<kappa>"
      and h1: "err1 = None \<Longrightarrow> distinct (new_keys cf b) \<Longrightarrow> has_split cf db1 b"
      using split_block_ex [of cf db b] by blast
    show ?thesis
    proof (cases err1)
      case (Some e)
      have ul: "upgrade_loop cf head (k # ks) db = Inr (Some e, db1)"
        using True gb s Some by simp
      from e1' [OF Some] obtain \<kappa> where \<kappa>: "\<kappa> \<in> set (new_keys cf b)" "put_fails db \<kappa>"
        "e = StorageIO \<kappa>" by blast
      have "loop_summary cf head (k # ks) db (Some e) db1"
        unfolding loop_summary_def lk N
        using k1 f1 \<kappa> by auto
      with ul show ?thesis by blast
    next
      case None
      note err1 = None
      have hs1: "has_split cf db1 b" using h1 [OF err1 dnb] .
      have pfb: "\<forall>\<kappa> \<in> set (new_keys cf b). \<not> put_fails db \<kappa>"
        using e1 err1 by simp
      show ?thesis
      proof (cases rule: db_Delete_cases [of db1 k])
        case fail
        have df: "delete_fails db k"
          using fail(1) k1 by (simp add: same_kind_def)
        have ul: "upgrade_loop cf head (k # ks) db = Inr (Some (StorageIO k), db1)"
          using True gb s err1 fail(2) by simp
        have "loop_summary cf head (k # ks) db (Some (StorageIO k)) db1"
          unfolding loop_summary_def lk N
          using k1 f1 df by auto
        with ul show ?thesis by blast
      next
        case (ok db2)
        have ndf: "\<not> delete_fails db k"
          using ok(1) k1 by (simp add: same_kind_def)
        have k2: "same_kind db db2"
          using k1 ok(3) by (rule same_kind_trans)
        have f2: "lookup db2 \<kappa> = lookup db \<kappa>" if "\<kappa> \<notin> set (new_keys cf b)" "\<kappa> \<noteq> k" for \<kappa>
          using that f1 ok(4) by simp
        have rec: "record_of cf db2 k' = record_of cf db k'" if "k' \<in> set ?L'" for k'
        proof (rule record_of_cong [OF k2])
          show "blockPrefix @ HashBytes cf (BytesToHash cf (TrimPrefix k' blockPrefix)) = k'"
            using wf' that by simp
          show "lookup db2 k' = lookup db k'"
            using L'_not_new [OF that] by (intro f2)
        qed
        have bs2: "List.map_filter (record_of cf db2) ?L' = ?bs'"
          by (rule map_filter_cong_set) (rule rec)
        have ul: "upgrade_loop cf head (k # ks) db = upgrade_loop cf head ks db2"
          using True gb s err1 ok(2) by simp
        have wf2: "\<forall>k' \<in> set ?L'.
           blockPrefix @ HashBytes cf (BytesToHash cf (TrimPrefix k' blockPrefix)) = k' \<and>
           record_of cf db2 k' \<noteq> None"
          using wf' rec by simp
        from Cons.IH [OF dks wf2, unfolded bs2, OF dn' np']
        obtain err db' where l2: "upgrade_loop cf head ks db2 = Inr (err, db')"
          and sum2: "loop_summary cf head ks db2 err db'"
          by blast
        from sum2 [unfolded loop_summary_def bs2]
        have k3: "same_kind db2 db'"
          and f3: "\<And>\<kappa>. \<kappa> \<notin> set ?L' \<Longrightarrow> \<kappa> \<notin> set ?N' \<Longrightarrow> lookup db' \<kappa> = lookup db2 \<kappa>"
          and e3: "err = None \<longleftrightarrow>
                 (\<forall>\<kappa> \<in> set ?N'. \<not> put_fails db2 \<kappa>) \<and> (\<forall>\<kappa> \<in> set ?L'. \<not> delete_fails db2 \<kappa>)"
          and e3': "\<And>e. err = Some e \<Longrightarrow> \<exists>\<kappa>. e = StorageIO \<kappa> \<and>
                 (\<kappa> \<in> set ?N' \<and> put_fails db2 \<kappa> \<or> \<kappa> \<in> set ?L' \<and> delete_fails db2 \<kappa>)"
          and m3: "err = None \<Longrightarrow> \<forall>k' \<in> set ?L'.
                 lookup db' k' = None \<and> (\<exists>b. record_of cf db2 k' = Some b \<and> has_split cf db' b)"
          by blast+
        have fl: "put_fails db2 = put_fails db" "delete_fails db2 = delete_fails db"
          using k2 by (simp_all add: same_kind_def)
        have c1: "same_kind db db'"
          using k2 k3 by (rule same_kind_trans)
        have c2: "lookup db' \<kappa> = lookup db \<kappa>"
          if "\<kappa> \<notin> set (k # ?L')" "\<kappa> \<notin> set (new_keys cf b @ ?N')" for \<kappa>
          using that f3 [of \<kappa>] f2 [of \<kappa>] by simp
        have c3: "err = None \<longleftrightarrow>
            (\<forall>\<kappa> \<in> set (new_keys cf b @ ?N'). \<not> put_fails db \<kappa>) \<and>
            (\<forall>\<kappa> \<in> set (k # ?L'). \<not> delete_fails db \<kappa>)"
          using e3 pfb ndf unfolding fl by auto
        have c4: "\<exists>\<kappa>. e = StorageIO \<kappa> \<and>
            (\<kappa> \<in> set (new_keys cf b @ ?N') \<and> put_fails db \<kappa> \<or>
             \<kappa> \<in> set (k # ?L') \<and> delete_fails db \<kappa>)" if "err = Some e" for e
          using e3' [OF that] unfolding fl by auto
        have c5: "lookup db' k' = None \<and> (\<exists>b. record_of cf db k' = Some b \<and> has_split cf db' b)"
          if en: "err = None" and k': "k' \<in> set (k # ?L')" for k'
        proof (cases "k' = k")
          case True
          have "lookup db' k = lookup db2 k"
            using f3 [of k] k_not_new(2) dk loop_keys_subset [of cf head ks] by blast
          then have "lookup db' k = None"
            using ok(4) by simp
          moreover have "has_split cf db' b"
          proof (rule has_split_cong [OF hs1])
            fix \<kappa> assume a: "\<kappa> \<in> set (new_keys cf b)"
            then have "\<kappa> \<notin> set ?N'" using disj by blast
            then have "lookup db' \<kappa> = lookup db2 \<kappa>"
              using f3 [of \<kappa>] new_not_L' [OF a] by simp
            moreover have "\<kappa> \<noteq> k" using a k_not_new(1) by blast
            ultimately show "lookup db' \<kappa> = lookup db1 \<kappa>"
              using ok(4) by simp
          qed
          ultimately show ?thesis
            using True b by simp
        next
          case False
          then have "k' \<in> set ?L'" using k' by simp
          with m3 [OF en] rec show ?thesis by auto
        qed
        have "loop_summary cf head (k # ks) db err db'"
          unfolding loop_summary_def lk N
          using c1 c2 c3 c4 c5 by blast
        with ul l2 show ?thesis by simp
      qed
    qed
  qed
qed

lemma legacy_keys_loop_keys: "legacy_keys cf head db = loop_keys cf head (iterator_keys db)"
  by (simp add: legacy_keys_def loop_keys_def)

lemma head_key_HasSuffix: "HasSuffix (blockPrefix @ HashBytes cf head) (HashBytes cf head)"
  by (simp add: HasSuffix_def)

lemma head_key_HasPrefix: "HasPrefix (blockPrefix @ HashBytes cf head) blockPrefix"
  by (simp add: HasPrefix_def)

lemma head_key_not_loop_key: "blockPrefix @ HashBytes cf head \<notin> set (loop_keys cf head ks)"
  by (simp add: loop_keys_def head_key_HasSuffix)

lemma LastBlock_no_prefix: "\<not> HasPrefix ''LastBlock'' blockPrefix"
  by (simp add: HasPrefix_def blockPrefix_def)

lemma upgradeChainDatabase_summary:
  assumes ldb: "impl db = LDBDatabase"
    and get: "db_Get db ''LastBlock'' = Inr data"
    and cur: "GetBlockByHashOld cf db (BytesToHash cf data) = Some current"
    and wf: "well_formed cf (BytesToHash cf data) db"
  shows "\<exists>err db'. upgradeChainDatabase cf db = Inr (err, db') \<and>
           upgrade_summary cf (BytesToHash cf data) current db err db'"
proof -
  let ?head = "BytesToHash cf data"
  let ?ks = "iterator_keys db"
  let ?L = "loop_keys cf ?head ?ks"
  let ?bs = "List.map_filter (record_of cf db) ?L"
  let ?N = "concat (map (new_keys cf) ?bs)"
  let ?kh = "blockPrefix @ HashBytes cf ?head"
  have bts: "blocks_to_split cf ?head db = ?bs @ [current]"
    by (simp add: blocks_to_split_def cur legacy_keys_loop_keys)
  have np: "needed_puts cf ?head db = ?N @ new_keys cf current"
    by (simp add: needed_puts_def bts)
  from wf have wf1: "\<forall>k \<in> set ?L.
           blockPrefix @ HashBytes cf (BytesToHash cf (TrimPrefix k blockPrefix)) = k \<and>
           record_of cf db k \<noteq> None"
    and dN: "distinct ?N" and dC: "distinct (new_keys cf current)"
    and disj: "set ?N \<inter> set (new_keys cf current) = {}"
    and pN: "\<forall>k \<in> set ?N. \<not> HasPrefix k blockPrefix"
    and pC: "\<forall>k \<in> set (new_keys cf current). \<not> HasPrefix k blockPrefix"
    by (simp_all add: well_formed_def bts legacy_keys_loop_keys list_all_iff)
  from upgrade_loop_summary [OF distinct_iterator_keys wf1 dN pN]
  obtain err1 db1 where l: "upgrade_loop cf ?head ?ks db = Inr (err1, db1)"
    and sum: "loop_summary cf ?head ?ks db err1 db1"
    by blast
  from sum [unfolded loop_summary_def]
  have k1: "same_kind db db1"
    and f1: "\<And>k. k \<notin> set ?L \<Longrightarrow> k \<notin> set ?N \<Longrightarrow> lookup db1 k = lookup db k"
    and e1: "err1 = None \<longleftrightarrow>
                 (\<forall>k \<in> set ?N. \<not> put_fails db k) \<and> (\<forall>k \<in> set ?L. \<not> delete_fails db k)"
    and e1': "\<And>e. err1 = Some e \<Longrightarrow> \<exists>k. e = StorageIO k \<and>
                 (k \<in> set ?N \<and> put_fails db k \<or> k \<in> set ?L \<and> delete_fails db k)"
    and m1: "err1 = None \<Longrightarrow> \<forall>k \<in> set ?L.
                 lookup db1 k = None \<and> (\<exists>b. record_of cf db k = Some b \<and> has_split cf db1 b)"
    by blast+
  show ?thesis
  proof (cases err1)
    case (Some e)
    have u: "upgradeChainDatabase cf db = Inr (Some e, db1)"
      by (simp add: upgradeChainDatabase_def get cur ldb l Some Let_def)
    have "upgrade_summary cf ?head current db (Some e) db1"
      unfolding upgrade_summary_def legacy_keys_loop_keys np
      using k1 f1 e1' [OF Some] by auto
    with u show ?thesis by blast
  next
    case None
    have "?kh \<notin> set ?N"
      using pN head_key_HasPrefix by blast
    then have "lookup db1 ?kh = lookup db ?kh"
      using f1 head_key_not_loop_key by blast
    then have cur1: "GetBlockByHashOld cf db1 ?head = Some current"
      using GetBlockByHashOld_cong [OF k1, of cf ?head] cur by simp
    obtain err2 db2 where s: "split_block cf db1 current = (err2, db2)"
      and k2: "same_kind db1 db2"
      and f2: "\<And>k. k \<notin> set (new_keys cf current) \<Longrightarrow> lookup db2 k = lookup db1 k"
      and e2: "err2 = None \<longleftrightarrow> (\<forall>k \<in> set (new_keys cf current). \<not> put_fails db1 k)"
      and e2': "\<And>e. err2 = Some e \<Longrightarrow>
                 \<exists>k \<in> set (new_keys cf current). put_fails db1 k \<and> e = StorageIO k"
      and h2: "err2 = None \<Longrightarrow> distinct (new_keys cf current) \<Longrightarrow> has_split cf db2 current"
      using split_block_ex [of cf db1 current] by blast
    have fl: "put_fails db1 = put_fails db"
      using k1 by (simp add: same_kind_def)
    have u: "upgradeChainDatabase cf db = Inr (err2, db2)"
      by (simp add: upgradeChainDatabase_def get cur ldb l None Let_def cur1 s)
    have c1: "same_kind db db2"
      using k1 k2 by (rule same_kind_trans)
    have c2: "lookup db2 k = lookup db k"
      if "k \<notin> set ?L" "k \<notin> set (?N @ new_keys cf current)" for k
      using that f1 [of k] f2 [of k] by simp
    have c3: "err2 = None \<longleftrightarrow>
        (\<forall>k \<in> set (?N @ new_keys cf current). \<not> put_fails db k) \<and>
        (\<forall>k \<in> set ?L. \<not> delete_fails db k)"
      using e1 e2 None unfolding fl by auto
    have c4: "\<exists>k. e = StorageIO k \<and>
           (k \<in> set (?N @ new_keys cf current) \<and> put_fails db k \<or>
            k \<in> set ?L \<and> delete_fails db k)" if "err2 = Some e" for e
      using e2' [OF that] unfolding fl by auto
    have keep: "lookup db2 k = None \<and> (\<exists>b. record_of cf db k = Some b \<and> has_split cf db2 b)"
      if en: "err2 = None" and k: "k \<in> set ?L" for k
    proof -
      from m1 [OF None] k obtain b where b: "lookup db1 k = None" "record_of cf db k = Some b"
        "has_split cf db1 b" by blast
      have "k \<notin> set (new_keys cf current)"
        using pC loop_keys_prefix [OF k] by blast
      then have "lookup db2 k = None"
        using f2 b(1) by simp
      moreover have "b \<in> set ?bs"
        using k b(2) by (force simp: map_filter_def)
      then have "set (new_keys cf b) \<subseteq> set ?N"
        by auto
      then have "has_split cf db2 b"
        using disj by (intro has_split_cong [OF b(3)] f2) blast
      ultimately show ?thesis using b(2) by blast
    qed
    have c5: "err2 = None \<Longrightarrow>
        \<exists>db1. upgrade_loop cf ?head ?ks db = Inr (None, db1) \<and>
           (\<forall>k \<in> set ?L.
              lookup db1 k = None \<and> (\<exists>b. record_of cf db k = Some b \<and> has_split cf db1 b)) \<and>
           GetBlockByHashOld cf db1 ?head = Some current \<and>
           split_block cf db1 current = (None, db2)"
      using l None m1 [OF None] cur1 s by blast
    have c6: "err2 = None \<Longrightarrow> has_split cf db2 current"
      using h2 dC by simp
    have "upgrade_summary cf ?head current db err2 db2"
      unfolding upgrade_summary_def legacy_keys_loop_keys np
      using c1 c2 c3 c4 c5 c6 keep by blast
    with u show ?thesis by blast
  qed
qed

lemma update_same: "map_of al k = Some v \<Longrightarrow> AList.update k v al = al"
  by (induction al) (auto split: if_splits)

lemma db_Put_same:
  "lookup db k = Some v \<Longrightarrow> \<not> put_fails db k \<Longrightarrow> db_Put db k v = (None, db)"
  by (simp add: db_Put_def lookup_def update_same)

lemma split_block_same:
  assumes "has_split cf db b" and "\<forall>k \<in> set (new_keys cf b). \<not> put_fails db k"
  shows "split_block cf db b = (None, db)"
  using assms
  by (simp add: split_block_def WriteTd_def WriteBody_def WriteHeader_def has_split_def
      new_keys_def db_Put_same)

lemma upgrade_loop_no_keys:
  "loop_keys cf head ks = [] \<Longrightarrow> upgrade_loop cf head ks db = Inr (None, db)"
  by (induction ks) (auto simp: loop_keys_Cons split: if_splits)

text \<open>Claim C8. If the migrator returns nil on a well-formed store, running it again on
  the store it left returns nil and leaves exactly the same store.\<close>

theorem upgradeChainDatabase_idempotent:
  assumes run: "upgradeChainDatabase cf db = Inr (None, db')"
    and wfs: "well_formed_store cf db"
  shows "upgradeChainDatabase cf db' = Inr (None, db')"
proof (cases "db_Get db ''LastBlock''")
  case (Inl err)
  then have "upgradeChainDatabase cf db = Inr (None, db)"
    by (simp add: upgradeChainDatabase_def)
  with run show ?thesis by simp
next
  case (Inr data)
  let ?head = "BytesToHash cf data"
  let ?kh = "blockPrefix @ HashBytes cf ?head"
  show ?thesis
  proof (cases "GetBlockByHashOld cf db ?head")
    case None
    then have "upgradeChainDatabase cf db = Inr (None, db)"
      by (simp add: upgradeChainDatabase_def Inr)
    with run show ?thesis by simp
  next
    case (Some current)
    show ?thesis
    proof (cases "impl db")
      case MemDatabase
      then have "upgradeChainDatabase cf db = Inr (None, db)"
        by (simp add: upgradeChainDatabase_def Inr Some)
      with run show ?thesis by simp
    next
      case LDBDatabase
      have wf: "well_formed cf ?head db"
        using wfs by (simp add: well_formed_store_def Inr)
      from upgradeChainDatabase_summary [OF LDBDatabase Inr Some wf] run
      have sum: "upgrade_summary cf ?head current db None db'"
        by auto
      from sum [unfolded upgrade_summary_def]
      have k: "same_kind db db'"
        and fr: "\<And>k. k \<notin> set (legacy_keys cf ?head db) \<Longrightarrow>
                   k \<notin> set (needed_puts cf ?head db) \<Longrightarrow> lookup db' k = lookup db k"
        and nf: "\<forall>k \<in> set (needed_puts cf ?head db). \<not> put_fails db k"
        and gone: "\<forall>k \<in> set (legacy_keys cf ?head db). lookup db' k = None"
        and hs: "has_split cf db' current"
        by blast+
      have bts: "set (new_keys cf current) \<subseteq> set (needed_puts cf ?head db)"
        by (simp add: needed_puts_def blocks_to_split_def Some)
      from wf have pN: "\<forall>k \<in> set (needed_puts cf ?head db).
                          \<not> HasPrefix k blockPrefix \<and> k \<noteq> ''LastBlock''"
        by (simp add: well_formed_def needed_puts_def list_all_iff)
      have "''LastBlock'' \<notin> set (legacy_keys cf ?head db)"
        using LastBlock_no_prefix by (auto simp: legacy_keys_def)
      moreover have "''LastBlock'' \<notin> set (needed_puts cf ?head db)"
        using pN by blast
      ultimately have "lookup db' ''LastBlock'' = lookup db ''LastBlock''"
        by (rule fr)
      then have get': "db_Get db' ''LastBlock'' = Inr data"
        using db_Get_cong [OF k, of "''LastBlock''"] Inr by simp
      have "?kh \<notin> set (legacy_keys cf ?head db)"
        by (simp add: legacy_keys_loop_keys head_key_not_loop_key)
      moreover have "?kh \<notin> set (needed_puts cf ?head db)"
        using pN head_key_HasPrefix by blast
      ultimately have "lookup db' ?kh = lookup db ?kh"
        by (rule fr)
      then have cur': "GetBlockByHashOld cf db' ?head = Some current"
        using GetBlockByHashOld_cong [OF k, of cf ?head] Some by simp
      have impl': "impl db' = LDBDatabase"
        using k LDBDatabase by (simp add: same_kind_def)
      have "loop_keys cf ?head (iterator_keys db') = []"
      proof (rule ccontr)
        assume "loop_keys cf ?head (iterator_keys db') \<noteq> []"
        then obtain key where key: "key \<in> set (loop_keys cf ?head (iterator_keys db'))"
          by (cases "loop_keys cf ?head (iterator_keys db')") auto
        then have dom': "lookup db' key \<noteq> None"
          using loop_keys_subset [of cf ?head "iterator_keys db'"] set_iterator_keys [of db']
          by blast
        have pre: "HasPrefix key blockPrefix" and suf: "\<not> HasSuffix key (HashBytes cf ?head)"
          using key by (simp_all add: loop_keys_def)
        have nn: "key \<notin> set (needed_puts cf ?head db)"
          using pN pre by blast
        have nl: "key \<notin> set (legacy_keys cf ?head db)"
          using gone dom' by auto
        from fr [OF nl nn] dom' have "lookup db key \<noteq> None" by simp
        then have "key \<in> set (iterator_keys db)"
          by (auto simp: set_iterator_keys)
        then have "key \<in> set (legacy_keys cf ?head db)"
          using pre suf by (simp add: legacy_keys_def)
        with nl show False by contradiction
      qed
      then have loop': "upgrade_loop cf ?head (iterator_keys db') db' = Inr (None, db')"
        by (rule upgrade_loop_no_keys)
      have "\<forall>k \<in> set (new_keys cf current). \<not> put_fails db' k"
        using nf bts k by (auto simp: same_kind_def)
      from split_block_same [OF hs this]
      show ?thesis
        by (simp add: upgradeChainDatabase_def get' cur' impl' loop' Let_def)
    qed
  qed
qed

theorem upgradeChainDatabase_idempotent_witness:
  "well_formed_store example_fns (old_store LDBDatabase never) \<and>
   (\<exists>db'. upgradeChainDatabase example_fns (old_store LDBDatabase never) = Inr (None, db') \<and>
      upgradeChainDatabase example_fns db' = Inr (None, db') \<and>
      lookup db' ''block-hash-h1'' = None \<and> lookup db' ''block-h1-td'' = Some ''t'' \<and>
      lookup db' ''block-hash-h3'' = Some ''B3'')"
proof -
  have wf: "well_formed_store example_fns (old_store LDBDatabase never)"
    by code_simp
  have "case upgradeChainDatabase example_fns (old_store LDBDatabase never) of
          Inl p \<Rightarrow> False
        | Inr r \<Rightarrow> fst r = None \<and> lookup (snd r) ''block-hash-h1'' = None \<and>
            lookup (snd r) ''block-h1-td'' = Some ''t'' \<and>
            lookup (snd r) ''block-hash-h3'' = Some ''B3''"
    by code_simp
  then obtain db' where
    r: "upgradeChainDatabase example_fns (old_store LDBDatabase never) = Inr (None, db')"
    and l: "lookup db' ''block-hash-h1'' = None" "lookup db' ''block-h1-td'' = Some ''t''"
      "lookup db' ''block-hash-h3'' = Some ''B3''"
    by (auto split: sum.splits)
  from upgradeChainDatabase_idempotent [OF r wf] r l wf show ?thesis
    by blast
qed




section \<open>Properties of the bloom index builder\<close>

lemma WriteMipmapBloom_frame:
  "same_kind db (snd (WriteMipmapBloom cf db i rs)) \<and>
   (\<forall>k. k \<noteq> mipmapKey cf i \<longrightarrow> lookup (snd (WriteMipmapBloom cf db i rs)) k = lookup db k)"
  by (rule db_Put_cases [of db "mipmapKey cf i" "BloomBin cf db i rs"])
    (simp_all add: WriteMipmapBloom_def same_kind_refl)

lemma GetCanonicalHash_cong:
  "same_kind db db' \<Longrightarrow> lookup db' (canonKey cf j) = lookup db (canonKey cf j) \<Longrightarrow>
     GetCanonicalHash cf db' j = GetCanonicalHash cf db j"
  by (simp add: GetCanonicalHash_def db_Get_cong)

lemma GetCanonicalHash_WriteMipmapBloom:
  "bloom_keys_apart cf \<Longrightarrow>
     GetCanonicalHash cf (snd (WriteMipmapBloom cf db i rs)) j = GetCanonicalHash cf db j"
proof (rule GetCanonicalHash_cong)
  assume a: "bloom_keys_apart cf"
  show "same_kind db (snd (WriteMipmapBloom cf db i rs))"
    using WriteMipmapBloom_frame by blast
  have "canonKey cf j \<noteq> mipmapKey cf i"
    using a by (metis bloom_keys_apart_def)
  then show "lookup (snd (WriteMipmapBloom cf db i rs)) (canonKey cf j) =
      lookup db (canonKey cf j)"
    using WriteMipmapBloom_frame by blast
qed

lemma bloom_loop_corrupt:
  assumes "bloom_keys_apart cf" and "j \<le> n" and "GetCanonicalHash cf db j = 0"
    and "i \<le> j" and "\<forall>k. i \<le> k \<and> k < j \<longrightarrow> GetCanonicalHash cf db k \<noteq> 0"
  shows "\<exists>db'. bloom_loop cf n i db = Some (Some (CorruptChain (unat j)), db') \<and>
           same_kind db db' \<and>
           (\<forall>k. (\<forall>m. k \<noteq> mipmapKey cf m) \<longrightarrow> lookup db' k = lookup db k)"
  using assms(3-5)
proof (induction "unat j - unat i" arbitrary: i db)
  case 0
  then have "i = j"
    by (simp add: word_le_nat_alt word_unat_eq_iff)
  with 0 assms(2) show ?case
    by (subst bloom_loop.simps) (simp add: same_kind_refl)
next
  case (Suc d)
  then have lt: "i < j"
    by (simp add: word_less_nat_alt)
  then have le_n: "i \<le> n" using assms(2) by simp
  have nz: "GetCanonicalHash cf db i \<noteq> 0"
    using Suc.prems(3) lt by simp
  let ?db2 = "snd (WriteMipmapBloom cf db i
                     (GetBlockReceipts cf db (GetCanonicalHash cf db i)))"
  have step: "bloom_loop cf n i db = bloom_loop cf n (i + 1) ?db2"
    using le_n nz by (subst bloom_loop.simps) simp
  have le': "i + 1 \<le> j" using lt by (rule inc_le)
  have u: "unat (i + 1) = Suc (unat i)"
  proof -
    have "unat j < 2 ^ LENGTH(64)"
      by (rule unsigned_less)
    then have "unat i + unat (1::64 word) < 2 ^ LENGTH(64)"
      using lt by (simp add: word_less_nat_alt)
    then have "unat (i + 1) = unat i + unat (1::64 word)"
      by (simp only: unat_add_lem)
    then show ?thesis by simp
  qed
  have d: "d = unat j - unat (i + 1)"
    using Suc.hyps(2) u by simp
  have z: "GetCanonicalHash cf ?db2 j = 0"
    using Suc.prems(1) by (simp add: GetCanonicalHash_WriteMipmapBloom [OF assms(1)])
  have nz': "\<forall>k. i + 1 \<le> k \<and> k < j \<longrightarrow> GetCanonicalHash cf ?db2 k \<noteq> 0"
  proof (intro allI impI)
    fix k assume k: "i + 1 \<le> k \<and> k < j"
    have "i \<le> k"
      using k u by (simp add: word_le_nat_alt)
    with Suc.prems(3) k show "GetCanonicalHash cf ?db2 k \<noteq> 0"
      by (simp add: GetCanonicalHash_WriteMipmapBloom [OF assms(1)])
  qed
  from Suc.hyps(1) [OF d z le' nz'] obtain db' where
    r: "bloom_loop cf n (i + 1) ?db2 = Some (Some (CorruptChain (unat j)), db')"
    and k: "same_kind ?db2 db'"
    and f: "\<forall>k. (\<forall>m. k \<noteq> mipmapKey cf m) \<longrightarrow> lookup db' k = lookup ?db2 k"
    by blast
  have "same_kind db db'"
    using WriteMipmapBloom_frame [THEN conjunct1] k by (rule same_kind_trans)
  moreover have "\<forall>k. (\<forall>m. k \<noteq> mipmapKey cf m) \<longrightarrow> lookup db' k = lookup db k"
    using f WriteMipmapBloom_frame [of db cf i] by simp
  ultimately show ?case
    using step r by simp
qed

lemma bloom_loop_frame:
  assumes "bloom_loop cf n i db = Some r"
  shows "same_kind db (snd r) \<and>
         (\<forall>k. (\<forall>m. k \<noteq> mipmapKey cf m) \<longrightarrow> lookup (snd r) k = lookup db k)"
proof (rule bloom_loop.raw_induct
    [where P = "\<lambda>cf n i db r. same_kind db (snd r) \<and>
         (\<forall>k. (\<forall>m. k \<noteq> mipmapKey cf m) \<longrightarrow> lookup (snd r) k = lookup db k)", OF _ assms])
  fix approx cf n i db r
  assume IH: "\<And>cf n i db r. approx cf n i db = Some r \<Longrightarrow>
      same_kind db (snd r) \<and>
      (\<forall>k. (\<forall>m. k \<noteq> mipmapKey cf m) \<longrightarrow> lookup (snd r) k = lookup db k)"
    and body: "(if i \<le> n
      then if GetCanonicalHash cf db i = 0
           then Some (Some (CorruptChain (unat i)), db)
           else approx cf n (i + 1)
                 (snd (WriteMipmapBloom cf db i
                        (GetBlockReceipts cf db (GetCanonicalHash cf db i))))
      else Some (None, db)) = Some r"
  show "same_kind db (snd r) \<and>
      (\<forall>k. (\<forall>m. k \<noteq> mipmapKey cf m) \<longrightarrow> lookup (snd r) k = lookup db k)"
  proof (cases "i \<le> n \<and> GetCanonicalHash cf db i \<noteq> 0")
    case False
    with body have "snd r = db"
      by (auto split: if_splits)
    then show ?thesis by (simp add: same_kind_refl)
  next
    case True
    let ?db2 = "snd (WriteMipmapBloom cf db i
                     (GetBlockReceipts cf db (GetCanonicalHash cf db i)))"
    from True body have "approx cf n (i + 1) ?db2 = Some r"
      by simp
    from IH [OF this] have k: "same_kind ?db2 (snd r)"
      and f: "\<forall>k. (\<forall>m. k \<noteq> mipmapKey cf m) \<longrightarrow> lookup (snd r) k = lookup ?db2 k"
      by blast+
    have "same_kind db (snd r)"
      using WriteMipmapBloom_frame [THEN conjunct1] k by (rule same_kind_trans)
    moreover have "\<forall>k. (\<forall>m. k \<noteq> mipmapKey cf m) \<longrightarrow> lookup (snd r) k = lookup db k"
      using f WriteMipmapBloom_frame [of db cf i] by simp
    ultimately show ?thesis by simp
  qed
qed

lemma version_current_cong:
  "same_kind db db' \<Longrightarrow> lookup db' versionKey = lookup db versionKey \<Longrightarrow>
     version_current cf db' = version_current cf db"
  by (simp add: version_current_def db_Get_cong)

lemma versionKey_not_mipmap: "bloom_keys_apart cf \<Longrightarrow> versionKey \<noteq> mipmapKey cf m"
  by (metis bloom_keys_apart_def)

text \<open>Claim C9, as stated, fails: when the stored version is already the current one the
  builder returns nil at once, whether or not a canonical hash in \<open>[0, head]\<close> is
  missing.\<close>

theorem addMipmapBloomBins_current_marker_counterexample:
  "(2::64 word) \<le> NumberU64 (old_block 3 2) \<and>
   GetBlock example_fns (new_store [(''setting-mipmap-version'', ''v2'')])
     (GetHeadBlockHash example_fns (new_store [(''setting-mipmap-version'', ''v2'')])) =
     Some (old_block 3 2) \<and>
   GetCanonicalHash example_fns (new_store [(''setting-mipmap-version'', ''v2'')]) 2 = 0 \<and>
   addMipmapBloomBins example_fns (new_store [(''setting-mipmap-version'', ''v2'')]) =
     Some (None, new_store [(''setting-mipmap-version'', ''v2'')])"
  by (simp add: addMipmapBloomBins_def version_current_def db_Get_def lookup_def new_store_def
      never_def versionKey_def example_fns_def mipmapVersion_def GetCanonicalHash_def
      GetHeadBlockHash_def NumberU64_def old_block_def)

text \<open>Claim C9, amended. When the stored version is not the current one and the head
  block exists: if the canonical hash of some number up to the head's is missing,
  the builder returns the corruption error for the first such number, the record of
  the version marker is as it was, and the version is still not current, so that the
  next run walks the chain again; and whenever the builder changes the record of the
  version marker, the walk over \<open>0..head\<close> has ended without error and the marker is
  written after it.\<close>

theorem addMipmapBloomBins_corrupt_chain:
  assumes nv: "\<not> version_current cf db"
    and head: "GetBlock cf db (GetHeadBlockHash cf db) = Some latestBlock"
    and apart: "bloom_keys_apart cf"
  shows "(\<forall>j. j \<le> NumberU64 latestBlock \<and> GetCanonicalHash cf db j = 0 \<longrightarrow>
            (\<exists>i db'. addMipmapBloomBins cf db = Some (Some (CorruptChain (unat i)), db') \<and>
               i \<le> j \<and> GetCanonicalHash cf db i = 0 \<and>
               lookup db' versionKey = lookup db versionKey \<and> \<not> version_current cf db')) \<and>
         (\<forall>err db'. addMipmapBloomBins cf db = Some (err, db') \<and>
              lookup db' versionKey \<noteq> lookup db versionKey \<longrightarrow>
            err = None \<and>
            (\<exists>db1. bloom_loop cf (NumberU64 latestBlock) 0 db = Some (None, db1) \<and>
               db_Put db1 versionKey (EncodeVersion cf mipmapVersion) = (None, db')))"
proof (intro conjI allI impI)
  fix j
  assume j: "j \<le> NumberU64 latestBlock \<and> GetCanonicalHash cf db j = 0"
  then have "\<exists>i. GetCanonicalHash cf db i = 0" by blast
  then obtain i where i: "GetCanonicalHash cf db i = 0"
    and least: "\<forall>k<i. GetCanonicalHash cf db k \<noteq> 0"
    by (auto simp: exists_least_iff [of "\<lambda>i. GetCanonicalHash cf db i = 0"])
  have ij: "i \<le> j"
    using j least by (meson not_le)
  then have "i \<le> NumberU64 latestBlock" using j by (auto intro: order_trans)
  from bloom_loop_corrupt [OF apart this i, of 0] least obtain db' where
    l: "bloom_loop cf (NumberU64 latestBlock) 0 db = Some (Some (CorruptChain (unat i)), db')"
    and k: "same_kind db db'"
    and f: "\<forall>k. (\<forall>m. k \<noteq> mipmapKey cf m) \<longrightarrow> lookup db' k = lookup db k"
    by auto
  have v: "lookup db' versionKey = lookup db versionKey"
    using f versionKey_not_mipmap [OF apart] by simp
  have "addMipmapBloomBins cf db = Some (Some (CorruptChain (unat i)), db')"
    by (simp add: addMipmapBloomBins_def nv head l write_version_def)
  with ij i v version_current_cong [OF k v, of cf] nv
  show "\<exists>i db'. addMipmapBloomBins cf db = Some (Some (CorruptChain (unat i)), db') \<and>
               i \<le> j \<and> GetCanonicalHash cf db i = 0 \<and>
               lookup db' versionKey = lookup db versionKey \<and> \<not> version_current cf db'"
    by blast
next
  fix err db'
  assume a: "addMipmapBloomBins cf db = Some (err, db') \<and>
              lookup db' versionKey \<noteq> lookup db versionKey"
  then obtain r where r: "bloom_loop cf (NumberU64 latestBlock) 0 db = Some r"
    and w: "write_version cf r = (err, db')"
    by (auto simp: addMipmapBloomBins_def nv head)
  from bloom_loop_frame [OF r] versionKey_not_mipmap [OF apart]
  have fr: "lookup (snd r) versionKey = lookup db versionKey"
    by simp
  have n: "fst r = None"
  proof (rule ccontr)
    assume "fst r \<noteq> None"
    then have "write_version cf r = r"
      by (auto simp: write_version_def)
    with w fr a show False by auto
  qed
  then have r': "r = (None, snd r)"
    by (cases r) simp
  have p: "db_Put (snd r) versionKey (EncodeVersion cf mipmapVersion) = (err, db')"
    using w n by (simp add: write_version_def)
  have e: "err = None"
  proof (rule ccontr)
    assume "err \<noteq> None"
    with p have "db' = snd r"
      by (auto simp: db_Put_def split: if_splits)
    with fr a show False by simp
  qed
  show "err = None" by (fact e)
  show "\<exists>db1. bloom_loop cf (NumberU64 latestBlock) 0 db = Some (None, db1) \<and>
               db_Put db1 versionKey (EncodeVersion cf mipmapVersion) = (None, db')"
    using r r' p e by metis
qed

theorem addMipmapBloomBins_corrupt_chain_witness:
  "\<not> version_current example_fns (new_store []) \<and>
   GetBlock example_fns (new_store []) (GetHeadBlockHash example_fns (new_store [])) =
     Some (old_block 3 2) \<and>
   bloom_keys_apart example_fns \<and>
   (2::64 word) \<le> NumberU64 (old_block 3 2) \<and>
   GetCanonicalHash example_fns (new_store []) 2 = 0 \<and>
   (\<exists>(i::64 word) db'. addMipmapBloomBins example_fns (new_store []) =
        Some (Some (CorruptChain (unat i)), db') \<and> i \<le> 2 \<and>
      lookup db' versionKey = None \<and> \<not> version_current example_fns db')"
proof -
  have 1: "\<not> version_current example_fns (new_store [])"
    by (simp add: version_current_def db_Get_def lookup_def new_store_def never_def
        versionKey_def)
  have 2: "GetBlock example_fns (new_store []) (GetHeadBlockHash example_fns (new_store [])) =
     Some (old_block 3 2)"
    by (simp add: GetHeadBlockHash_def db_Get_def lookup_def new_store_def never_def
        example_fns_def)
  have 3: "bloom_keys_apart example_fns"
    by (simp add: bloom_keys_apart_def example_fns_def versionKey_def)
  have 4: "(2::64 word) \<le> NumberU64 (old_block 3 2) \<and>
      GetCanonicalHash example_fns (new_store []) 2 = 0"
    by (simp add: NumberU64_def old_block_def GetCanonicalHash_def db_Get_def lookup_def
        new_store_def never_def example_fns_def)
  have 5: "lookup (new_store []) versionKey = None"
    by (simp add: lookup_def new_store_def versionKey_def)
  from addMipmapBloomBins_corrupt_chain [OF 1 2 3, THEN conjunct1, rule_format, OF 4]
  show ?thesis
    using 1 2 3 4 unfolding 5 by blast
qed

lemma unat_plus_one:
  fixes i n :: "64 word"
  assumes "i \<le> n" and "n + 1 \<noteq> 0"
  shows "unat (i + 1) = Suc (unat i)"
proof -
  have "unat n + unat (1::64 word) < 2 ^ LENGTH(64)"
  proof (rule ccontr)
    assume "\<not> unat n + unat (1::64 word) < 2 ^ LENGTH(64)"
    moreover have "unat n < 2 ^ LENGTH(64)" by (rule unsigned_less)
    ultimately have "unat n + 1 = 2 ^ LENGTH(64)" by simp
    then have "of_nat (unat n + 1) = (0::64 word)"
      by (simp only: of_nat_2p)
    then have "n + 1 = 0" by (simp add: add.commute)
    with assms(2) show False by contradiction
  qed
  then have "unat i + unat (1::64 word) < 2 ^ LENGTH(64)"
    using assms(1) by (simp add: word_le_nat_alt)
  then have "unat (i + 1) = unat i + unat (1::64 word)"
    by (simp only: unat_add_lem)
  then show ?thesis by simp
qed

lemma bloom_loop_complete:
  assumes "bloom_keys_apart cf" and "n + 1 \<noteq> 0"
    and "\<forall>k. i \<le> k \<and> k \<le> n \<longrightarrow> GetCanonicalHash cf db k \<noteq> 0"
  shows "\<exists>db'. bloom_loop cf n i db = Some (None, db')"
  using assms(3)
proof (induction "Suc (unat n) - unat i" arbitrary: i db)
  case 0
  then have "\<not> i \<le> n"
    by (simp add: word_le_nat_alt)
  then show ?case
    by (subst bloom_loop.simps) simp
next
  case (Suc d)
  then have le: "i \<le> n"
    by (simp add: word_le_nat_alt)
  have nz: "GetCanonicalHash cf db i \<noteq> 0"
    using Suc.prems le by simp
  let ?db2 = "snd (WriteMipmapBloom cf db i
                     (GetBlockReceipts cf db (GetCanonicalHash cf db i)))"
  have step: "bloom_loop cf n i db = bloom_loop cf n (i + 1) ?db2"
    using le nz by (subst bloom_loop.simps) simp
  have u: "unat (i + 1) = Suc (unat i)"
    using le assms(2) by (rule unat_plus_one)
  have d: "d = Suc (unat n) - unat (i + 1)"
    using Suc.hyps(2) u by simp
  have nz': "\<forall>k. i + 1 \<le> k \<and> k \<le> n \<longrightarrow> GetCanonicalHash cf ?db2 k \<noteq> 0"
  proof (intro allI impI)
    fix k assume k: "i + 1 \<le> k \<and> k \<le> n"
    have "i \<le> k"
      using k u by (simp add: word_le_nat_alt)
    with Suc.prems k show "GetCanonicalHash cf ?db2 k \<noteq> 0"
      by (simp add: GetCanonicalHash_WriteMipmapBloom [OF assms(1)])
  qed
  from Suc.hyps(1) [OF d nz'] show ?case
    using step by simp
qed

lemma word_le_2_cases: "(k::64 word) \<le> 2 \<Longrightarrow> k = 0 \<or> k = 1 \<or> k = 2"
  by (auto simp: word_le_nat_alt word_unat_eq_iff)

section \<open>Failures of the store\<close>

text \<open>Claim C10, as stated, fails: when the read of \<^verbatim>\<open>LastBlock\<close> fails with an I/O error
  the migrator returns nil and does nothing.\<close>

theorem failed_head_read_counterexample:
  "db_Get (old_store LDBDatabase only_LastBlock) ''LastBlock'' = Inl (StorageIO ''LastBlock'') \<and>
   upgradeChainDatabase example_fns (old_store LDBDatabase only_LastBlock) =
     Inr (None, old_store LDBDatabase only_LastBlock)"
  by (simp add: upgradeChainDatabase_def db_Get_def old_store_def only_LastBlock_def)

text \<open>Claim C10, amended. On a well-formed \<^verbatim>\<open>*eddb.LDBDatabase\<close> in the old format the
  migrator returns nil exactly when none of the writes and deletes of a complete
  migration fails, and the error it returns is the I/O error of one of them; a failed
  read of \<^verbatim>\<open>LastBlock\<close> is not an error of the migrator, which then returns nil and
  leaves the store as it is; and when the builder's walk has ended without error and
  the write of the version marker fails, the builder returns that I/O error.\<close>

theorem store_failures_returned:
  "(impl db = LDBDatabase \<and> db_Get db ''LastBlock'' = Inr data \<and>
    GetBlockByHashOld cf db (BytesToHash cf data) = Some current \<and>
    well_formed cf (BytesToHash cf data) db \<longrightarrow>
      (\<exists>err db'. upgradeChainDatabase cf db = Inr (err, db') \<and>
         (err = None \<longleftrightarrow>
            (\<forall>key \<in> set (needed_puts cf (BytesToHash cf data) db). \<not> put_fails db key) \<and>
            (\<forall>key \<in> set (legacy_keys cf (BytesToHash cf data) db). \<not> delete_fails db key)) \<and>
         (\<forall>e. err = Some e \<longrightarrow>
            (\<exists>key. e = StorageIO key \<and>
               (key \<in> set (needed_puts cf (BytesToHash cf data) db) \<and> put_fails db key \<or>
                key \<in> set (legacy_keys cf (BytesToHash cf data) db) \<and> delete_fails db key))))) \<and>
   (db_Get db2 ''LastBlock'' = Inl e2 \<longrightarrow> upgradeChainDatabase cf db2 = Inr (None, db2)) \<and>
   (\<not> version_current cf db3 \<and> GetBlock cf db3 (GetHeadBlockHash cf db3) = Some latestBlock \<and>
    bloom_loop cf (NumberU64 latestBlock) 0 db3 = Some (None, db4) \<and>
    put_fails db3 versionKey \<longrightarrow>
      addMipmapBloomBins cf db3 = Some (Some (StorageIO versionKey), db4))"
proof (intro conjI impI)
  assume a: "impl db = LDBDatabase \<and> db_Get db ''LastBlock'' = Inr data \<and>
    GetBlockByHashOld cf db (BytesToHash cf data) = Some current \<and>
    well_formed cf (BytesToHash cf data) db"
  then obtain err db' where u: "upgradeChainDatabase cf db = Inr (err, db')"
    and sum: "upgrade_summary cf (BytesToHash cf data) current db err db'"
    using upgradeChainDatabase_summary [of db data cf current] by blast
  from sum [unfolded upgrade_summary_def] u
  show "\<exists>err db'. upgradeChainDatabase cf db = Inr (err, db') \<and>
         (err = None \<longleftrightarrow>
            (\<forall>key \<in> set (needed_puts cf (BytesToHash cf data) db). \<not> put_fails db key) \<and>
            (\<forall>key \<in> set (legacy_keys cf (BytesToHash cf data) db). \<not> delete_fails db key)) \<and>
         (\<forall>e. err = Some e \<longrightarrow>
            (\<exists>key. e = StorageIO key \<and>
               (key \<in> set (needed_puts cf (BytesToHash cf data) db) \<and> put_fails db key \<or>
                key \<in> set (legacy_keys cf (BytesToHash cf data) db) \<and> delete_fails db key)))"
    by blast
next
  assume "db_Get db2 ''LastBlock'' = Inl e2"
  then show "upgradeChainDatabase cf db2 = Inr (None, db2)"
    by (simp add: upgradeChainDatabase_def)
next
  assume a: "\<not> version_current cf db3 \<and>
    GetBlock cf db3 (GetHeadBlockHash cf db3) = Some latestBlock \<and>
    bloom_loop cf (NumberU64 latestBlock) 0 db3 = Some (None, db4) \<and> put_fails db3 versionKey"
  then have "same_kind db3 db4"
    using bloom_loop_frame [of cf "NumberU64 latestBlock" 0 db3 "(None, db4)"] by simp
  with a have "put_fails db4 versionKey"
    by (simp add: same_kind_def)
  with a show "addMipmapBloomBins cf db3 = Some (Some (StorageIO versionKey), db4)"
    by (simp add: addMipmapBloomBins_def write_version_def db_Put_def)
qed

theorem store_failures_returned_witness:
  "impl ((old_store LDBDatabase never)\<lparr>put_fails := only_h2_td\<rparr>) = LDBDatabase \<and>
   db_Get ((old_store LDBDatabase never)\<lparr>put_fails := only_h2_td\<rparr>) ''LastBlock'' = Inr ''h3'' \<and>
   GetBlockByHashOld example_fns ((old_store LDBDatabase never)\<lparr>put_fails := only_h2_td\<rparr>)
     (BytesToHash example_fns ''h3'') = Some (old_block 3 3) \<and>
   well_formed example_fns (BytesToHash example_fns ''h3'')
     ((old_store LDBDatabase never)\<lparr>put_fails := only_h2_td\<rparr>) \<and>
   (\<exists>db'. upgradeChainDatabase example_fns ((old_store LDBDatabase never)\<lparr>put_fails := only_h2_td\<rparr>) =
      Inr (Some (StorageIO ''block-h2-td''), db')) \<and>
   db_Get (old_store LDBDatabase only_LastBlock) ''LastBlock'' = Inl (StorageIO ''LastBlock'') \<and>
   upgradeChainDatabase example_fns (old_store LDBDatabase only_LastBlock) =
     Inr (None, old_store LDBDatabase only_LastBlock) \<and>
   \<not> version_current example_fns ((new_store [(''block-num-2'', ''h3'')])\<lparr>put_fails := only_versionKey\<rparr>) \<and>
   GetBlock example_fns ((new_store [(''block-num-2'', ''h3'')])\<lparr>put_fails := only_versionKey\<rparr>)
     (GetHeadBlockHash example_fns
        ((new_store [(''block-num-2'', ''h3'')])\<lparr>put_fails := only_versionKey\<rparr>)) =
     Some (old_block 3 2) \<and>
   put_fails ((new_store [(''block-num-2'', ''h3'')])\<lparr>put_fails := only_versionKey\<rparr>) versionKey \<and>
   (\<exists>db4. bloom_loop example_fns (NumberU64 (old_block 3 2)) 0
            ((new_store [(''block-num-2'', ''h3'')])\<lparr>put_fails := only_versionKey\<rparr>) =
            Some (None, db4) \<and>
      addMipmapBloomBins example_fns
        ((new_store [(''block-num-2'', ''h3'')])\<lparr>put_fails := only_versionKey\<rparr>) =
        Some (Some (StorageIO versionKey), db4))"
proof -
  let ?db = "(old_store LDBDatabase never)\<lparr>put_fails := only_h2_td\<rparr>"
  let ?db2 = "old_store LDBDatabase only_LastBlock"
  let ?db3 = "(new_store [(''block-num-2'', ''h3'')])\<lparr>put_fails := only_versionKey\<rparr>"
  have h: "BytesToHash example_fns ''h3'' = 3"
    by (simp add: example_fns_def)
  have 1: "impl ?db = LDBDatabase \<and> db_Get ?db ''LastBlock'' = Inr ''h3'' \<and>
     GetBlockByHashOld example_fns ?db (BytesToHash example_fns ''h3'') = Some (old_block 3 3)"
    by (simp add: GetBlockByHashOld_def db_Get_def lookup_def old_store_def never_def
        example_fns_def blockPrefix_def)
  have 2: "well_formed example_fns (BytesToHash example_fns ''h3'') ?db"
    unfolding h by code_simp
  have 3: "db_Get ?db2 ''LastBlock'' = Inl (StorageIO ''LastBlock'')"
    by (simp add: db_Get_def old_store_def only_LastBlock_def)
  have 4: "\<not> version_current example_fns ?db3 \<and>
      GetBlock example_fns ?db3 (GetHeadBlockHash example_fns ?db3) = Some (old_block 3 2) \<and>
      put_fails ?db3 versionKey"
    by (simp add: version_current_def GetHeadBlockHash_def db_Get_def lookup_def new_store_def
        never_def versionKey_def example_fns_def only_versionKey_def)
  have apart: "bloom_keys_apart example_fns"
    by (simp add: bloom_keys_apart_def example_fns_def versionKey_def)
  have n2: "NumberU64 (old_block 3 2) = 2"
    by (simp add: NumberU64_def old_block_def)
  have "\<forall>k. 0 \<le> k \<and> k \<le> 2 \<longrightarrow> GetCanonicalHash example_fns ?db3 k \<noteq> 0"
    by (auto dest!: word_le_2_cases
        simp: GetCanonicalHash_def db_Get_def lookup_def new_store_def never_def example_fns_def)
  from bloom_loop_complete [OF apart _ this]
  obtain db4 where 5: "bloom_loop example_fns (NumberU64 (old_block 3 2)) 0 ?db3 =
      Some (None, db4)"
    unfolding n2 by auto
  have np: "needed_puts example_fns (BytesToHash example_fns ''h3'') ?db =
      [''block-h1-td'', ''block-h1-body'', ''block-h1-header'',
       ''block-h2-td'', ''block-h2-body'', ''block-h2-header'',
       ''block-h3-td'', ''block-h3-body'', ''block-h3-header'']"
    unfolding h by code_simp
  have df: "delete_fails ?db = never"
    by (simp add: old_store_def never_def [abs_def])
  note t = store_failures_returned [of ?db "''h3''" example_fns "old_block 3 3" ?db2
      "StorageIO ''LastBlock''" ?db3 "old_block 3 2" db4]
  from t [THEN conjunct1, rule_format, OF conjI [OF 1 [THEN conjunct1]
        conjI [OF 1 [THEN conjunct2, THEN conjunct1] conjI [OF 1 [THEN conjunct2, THEN conjunct2] 2]]]]
  obtain err db' where u: "upgradeChainDatabase example_fns ?db = Inr (err, db')"
    and e: "\<forall>e. err = Some e \<longrightarrow>
            (\<exists>key. e = StorageIO key \<and>
               (key \<in> set (needed_puts example_fns (BytesToHash example_fns ''h3'') ?db) \<and>
                  put_fails ?db key \<or>
                key \<in> set (legacy_keys example_fns (BytesToHash example_fns ''h3'') ?db) \<and>
                  delete_fails ?db key))"
    and n: "err = None \<longleftrightarrow>
            (\<forall>key \<in> set (needed_puts example_fns (BytesToHash example_fns ''h3'') ?db).
                \<not> put_fails ?db key) \<and>
            (\<forall>key \<in> set (legacy_keys example_fns (BytesToHash example_fns ''h3'') ?db).
                \<not> delete_fails ?db key)"
    by blast
  have "err \<noteq> None"
    unfolding n np by (simp add: only_h2_td_def)
  then obtain e' where e': "err = Some e'" by auto
  with e obtain key where "e' = StorageIO key" "put_fails ?db key \<or> delete_fails ?db key"
    by blast
  then have "e' = StorageIO ''block-h2-td''"
    by (auto simp: only_h2_td_def df never_def)
  with u e' have 6: "\<exists>db'. upgradeChainDatabase example_fns ?db =
      Inr (Some (StorageIO ''block-h2-td''), db')"
    by blast
  have 7: "upgradeChainDatabase example_fns ?db2 = Inr (None, ?db2)"
    using t [THEN conjunct2, THEN conjunct1] 3 by simp
  have 8: "addMipmapBloomBins example_fns ?db3 = Some (Some (StorageIO versionKey), db4)"
    using t [THEN conjunct2, THEN conjunct2] 4 5 by simp
  show ?thesis
    using 1 2 3 4 5 6 7 8 by blast
qed

end
